theory Spec2Isabelle
  imports Complex_Main "HOL-Library.Sublist"
begin

section \<open>JavaScript values\<close>

text \<open>
  The script of \<^verbatim>\<open>check-published-fixes.js\<close> works on the values that
  \<^verbatim>\<open>response.json()\<close> returns and on the object literals it builds from them.
  A number is a double: not-a-number, an infinity, or a rational (the sign of zero is
  not kept: both zeros are falsy and equal). An object is the list of its properties in
  the order they were written; a later binding of a key overrides an earlier one, as in
  \<^verbatim>\<open>JSON.parse\<close>.
\<close>

datatype jsnum = NaN | PosInf | NegInf | Fin rat

datatype jsval =
    JUndefined
  | JNull
  | JBool bool
  | JNum jsnum
  | JStr string
  | JArr "jsval list"
  | JObj "(string \<times> jsval) list"

text \<open>What \<^verbatim>\<open>if (v)\<close>, \<^verbatim>\<open>!v\<close> and \<^verbatim>\<open>.filter((x) => v)\<close> test.\<close>

fun truthy :: "jsval \<Rightarrow> bool" where
  "truthy JUndefined = False"
| "truthy JNull = False"
| "truthy (JBool b) = b"
| "truthy (JNum n) = (n \<noteq> NaN \<and> n \<noteq> Fin 0)"
| "truthy (JStr s) = (s \<noteq> [])"
| "truthy (JArr xs) = True"
| "truthy (JObj kvs) = True"

definition nullish :: "jsval \<Rightarrow> bool" where
  "nullish v = (v = JUndefined \<or> v = JNull)"

text \<open>
  \<^verbatim>\<open>v.k\<close> on a receiver that is neither \<^verbatim>\<open>undefined\<close> nor \<^verbatim>\<open>null\<close>,
  for the property names this script reads from data (\<^verbatim>\<open>status\<close>, \<^verbatim>\<open>id\<close>,
  \<^verbatim>\<open>executedAt\<close>, \<^verbatim>\<open>changeDetails\<close>, \<^verbatim>\<open>documentPath\<close>, \<^verbatim>\<open>live\<close>,
  \<^verbatim>\<open>preview\<close>, \<^verbatim>\<open>lastModified\<close>, \<^verbatim>\<open>url\<close>, \<^verbatim>\<open>hlxConfig\<close>, \<^verbatim>\<open>rso\<close>,
  \<^verbatim>\<open>owner\<close>, \<^verbatim>\<open>site\<close>, \<^verbatim>\<open>ref\<close>): none of them is a member of a built-in
  prototype, so a primitive or an array answers \<^verbatim>\<open>undefined\<close>. On
  \<^verbatim>\<open>undefined\<close> and \<^verbatim>\<open>null\<close> the access throws; the callers below test
  \<open>nullish\<close> first wherever the source does not exclude it.
\<close>

fun dot :: "jsval \<Rightarrow> string \<Rightarrow> jsval" where
  "dot (JObj kvs) k = (case map_of (rev kvs) k of None \<Rightarrow> JUndefined | Some v \<Rightarrow> v)"
| "dot v k = JUndefined"

text \<open>Optional chaining \<^verbatim>\<open>v?.k\<close>.\<close>

definition optDot :: "jsval \<Rightarrow> string \<Rightarrow> jsval" where
  "optDot v k = (if nullish v then JUndefined else dot v k)"

text \<open>
  Whether a value converts to a primitive, as a template literal and the \<^verbatim>\<open>Date\<close>
  constructor require. A primitive always does. A parsed object inherits
  \<^verbatim>\<open>toString\<close> and answers \<^verbatim>\<open>[object Object]\<close>, unless it has a property of
  its own named \<^verbatim>\<open>toString\<close>: no JSON value is callable and the inherited
  \<^verbatim>\<open>valueOf\<close> returns the object itself, so the conversion throws a
  \<^verbatim>\<open>TypeError\<close>. An array joins the conversions of its elements, and throws when
  one of them does.
\<close>

fun convertible :: "jsval \<Rightarrow> bool" where
  "convertible (JObj kvs) = (''toString'' \<notin> set (map fst kvs))"
| "convertible (JArr xs) = (\<forall>x \<in> set xs. convertible x)"
| "convertible v = True"

section \<open>The environment: network and clock library\<close>

text \<open>
  What a run can throw. Every one of them ends in the \<^verbatim>\<open>catch\<close> of
  \<^verbatim>\<open>checkPublishedFixes\<close>, unless \<^verbatim>\<open>getHelixStatus\<close> catches it first.
\<close>

datatype error =
    TypeError
  | NetworkError
  | HttpError
  | SyntaxError
  | NoRsoConfig

text \<open>
  The promise of \<^verbatim>\<open>fetch\<close>: rejected, or resolved with a response whose
  \<^verbatim>\<open>ok\<close> flag is given and whose \<^verbatim>\<open>json()\<close> yields a value or rejects
  (\<open>None\<close>: the body is not JSON).
\<close>

record response =
  respOk :: bool
  respJson :: "jsval option"

datatype fetched = Rejected | Resolved response

text \<open>
  A request to the admin endpoint. Its URL is
  \<^verbatim>\<open>https://admin.hlx.page/status/${rso.owner}/${rso.site}/${rso.ref}/${cleanPath}\<close>;
  the request keeps the four interpolated parts.
\<close>

record request =
  reqOwner :: jsval
  reqSite :: jsval
  reqRef :: jsval
  reqPath :: string

text \<open>
  The remote services as one run sees them. The admin service may answer the same
  request differently at different times, so its answer depends on how many admin
  requests the run has made before.
\<close>

record world =
  siteResponse :: fetched
  fixesResponse :: fetched
  helixResponse :: "nat \<Rightarrow> request \<Rightarrow> fetched"

text \<open>
  The time value of \<^verbatim>\<open>new Date(v)\<close> in milliseconds since the epoch, for a value
  \<open>v\<close> that converts to a primitive; \<open>None\<close> is the invalid date (time value
  not-a-number). How a string is parsed is up to the JavaScript engine beyond the ISO
  format, so the functions below take this part of the constructor as the parameter
  \<open>tv\<close>. On a value that does not convert the constructor throws; \<open>parseDate\<close>
  below says so and does not ask the clock.
\<close>

type_synonym clock = "jsval \<Rightarrow> int option"

section \<open>The script\<close>

text \<open>
  The functions of \<^verbatim>\<open>check-published-fixes.js\<close> in the order of the file. The run
  starts at the call of \<^verbatim>\<open>checkPublishedFixes\<close>: the two credentials have been
  found in the environment, or the process would have exited before. Of the console
  output only the template literals over fetched data are kept, at the place where they
  stand: converting such a value to a string can throw. The pause between two iterations
  is left out.
\<close>

definition getSiteDetails :: "world \<Rightarrow> error + jsval" where
  "getSiteDetails W =
     (case siteResponse W of
        Rejected \<Rightarrow> Inl NetworkError
      | Resolved response \<Rightarrow>
          if \<not> respOk response then Inl HttpError
          else (case respJson response of None \<Rightarrow> Inl SyntaxError | Some v \<Rightarrow> Inr v))"

definition getFixedPages :: "world \<Rightarrow> error + jsval" where
  "getFixedPages W =
     (case fixesResponse W of
        Rejected \<Rightarrow> Inl NetworkError
      | Resolved response \<Rightarrow>
          if \<not> respOk response then Inl HttpError
          else (case respJson response of None \<Rightarrow> Inl SyntaxError | Some v \<Rightarrow> Inr v))"

text \<open>\<^verbatim>\<open>documentPath.replace(/^\/+/, '')\<close> on a string.\<close>

definition cleanPathOf :: "string \<Rightarrow> string" where
  "cleanPathOf documentPath = dropWhile (\<lambda>c. c = CHR ''/'') documentPath"

text \<open>
  \<^verbatim>\<open>getHelixStatus\<close>. The first two statements stand before the \<^verbatim>\<open>try\<close>:
  a \<^verbatim>\<open>documentPath\<close> that is not a string has no \<^verbatim>\<open>replace\<close> method, an
  \<^verbatim>\<open>rso\<close> that is \<^verbatim>\<open>undefined\<close> or \<^verbatim>\<open>null\<close> has no properties, and the
  URL template converts \<^verbatim>\<open>rso.owner\<close>, \<^verbatim>\<open>rso.site\<close> and \<^verbatim>\<open>rso.ref\<close> to
  strings; all three throw out of the function. Everything after is caught and answered
  with \<^verbatim>\<open>null\<close>. The second component is the list of admin requests made so far.
\<close>

definition getHelixStatus ::
  "world \<Rightarrow> request list \<Rightarrow> jsval \<Rightarrow> jsval \<Rightarrow> (error + jsval) \<times> request list" where
  "getHelixStatus W sent documentPath rso =
     (case documentPath of
        JStr p \<Rightarrow>
          if nullish rso then (Inl TypeError, sent)
          else if \<not> (convertible (dot rso ''owner'') \<and> convertible (dot rso ''site'')
                      \<and> convertible (dot rso ''ref'')) then (Inl TypeError, sent)
          else
            let cleanPath = cleanPathOf p;
                adminEndpoint = \<lparr>reqOwner = dot rso ''owner'', reqSite = dot rso ''site'',
                                 reqRef = dot rso ''ref'', reqPath = cleanPath\<rparr>
            in (case helixResponse W (length sent) adminEndpoint of
                  Rejected \<Rightarrow> (Inr JNull, sent @ [adminEndpoint])
                | Resolved response \<Rightarrow>
                    if \<not> respOk response then (Inr JNull, sent @ [adminEndpoint])
                    else (case respJson response of
                            None \<Rightarrow> (Inr JNull, sent @ [adminEndpoint])
                          | Some v \<Rightarrow> (Inr v, sent @ [adminEndpoint])))
      | _ \<Rightarrow> (Inl TypeError, sent))"

text \<open>
  \<^verbatim>\<open>parseDate\<close> and \<^verbatim>\<open>isDateAfter\<close>. \<^verbatim>\<open>new Date(dateString)\<close> throws when
  its argument does not convert to a primitive. A \<^verbatim>\<open>Date\<close> is its time value;
  \<^verbatim>\<open>date1 > date2\<close> compares the two time values as numbers and is false when
  either is not-a-number.
\<close>

definition parseDate :: "clock \<Rightarrow> jsval \<Rightarrow> error + int option" where
  "parseDate tv dateString =
     (if convertible dateString then Inr (tv dateString) else Inl TypeError)"

definition dateGreater :: "int option \<Rightarrow> int option \<Rightarrow> bool" where
  "dateGreater date1 date2 =
     (case date1 of
        None \<Rightarrow> False
      | Some t1 \<Rightarrow> (case date2 of None \<Rightarrow> False | Some t2 \<Rightarrow> t2 < t1))"

definition isDateAfter :: "clock \<Rightarrow> jsval \<Rightarrow> jsval \<Rightarrow> error + bool" where
  "isDateAfter tv dateString1 dateString2 =
     (case parseDate tv dateString1 of
        Inl e \<Rightarrow> Inl e
      | Inr date1 \<Rightarrow>
          (case parseDate tv dateString2 of
             Inl e \<Rightarrow> Inl e
           | Inr date2 \<Rightarrow> Inr (dateGreater date1 date2)))"

subsection \<open>Step 3: the deployed fixes with a document path\<close>

text \<open>
  \<^verbatim>\<open>fixes.filter((fix) => fix.status === 'DEPLOYED')\<close>: the callback throws on an
  element that is \<^verbatim>\<open>null\<close>.
\<close>

fun filterDeployed :: "jsval list \<Rightarrow> error + jsval list" where
  "filterDeployed [] = Inr []"
| "filterDeployed (fix # fixes) =
     (if nullish fix then Inl TypeError
      else (case filterDeployed fixes of
              Inl e \<Rightarrow> Inl e
            | Inr kept \<Rightarrow>
                Inr (if dot fix ''status'' = JStr ''DEPLOYED'' then fix # kept else kept)))"

definition extractFix :: "jsval \<Rightarrow> jsval" where
  "extractFix fix =
     JObj [(''id'', dot fix ''id''),
           (''executedAt'', dot fix ''executedAt''),
           (''documentPath'', optDot (dot fix ''changeDetails'') ''documentPath'')]"

definition hasDocumentPath :: "jsval \<Rightarrow> bool" where
  "hasDocumentPath fix = truthy (dot fix ''documentPath'')"

text \<open>
  The whole chain \<^verbatim>\<open>fixes.filter(...).map(...).filter(...)\<close>. Only an array has
  \<^verbatim>\<open>filter\<close>; on \<^verbatim>\<open>null\<close> already \<^verbatim>\<open>fixes.length\<close> throws.
\<close>

definition deployedFixesOf :: "jsval \<Rightarrow> error + jsval list" where
  "deployedFixesOf fixes =
     (case fixes of
        JArr xs \<Rightarrow>
          (case filterDeployed xs of
             Inl e \<Rightarrow> Inl e
           | Inr deployed \<Rightarrow> Inr (filter hasDocumentPath (map extractFix deployed)))
      | _ \<Rightarrow> Inl TypeError)"

subsection \<open>Step 4: the loop over the deployed fixes\<close>

record run_state =
  livePublishedPages :: "jsval list"
  previewPublishedPages :: "jsval list"
  helixRequests :: "request list"

definition liveEntry :: "jsval \<Rightarrow> jsval \<Rightarrow> jsval" where
  "liveEntry fix status =
     JObj [(''documentPath'', dot fix ''documentPath''),
           (''executedAt'', dot fix ''executedAt''),
           (''liveLastModified'', dot (dot status ''live'') ''lastModified''),
           (''liveUrl'', dot (dot status ''live'') ''url'')]"

definition previewEntry :: "jsval \<Rightarrow> jsval \<Rightarrow> jsval" where
  "previewEntry fix status =
     JObj [(''documentPath'', dot fix ''documentPath''),
           (''executedAt'', dot fix ''executedAt''),
           (''previewLastModified'', dot (dot status ''preview'') ''lastModified''),
           (''previewUrl'', dot (dot status ''preview'') ''url'')]"

text \<open>
  The live check of one iteration, \<^verbatim>\<open>status\<close> being truthy. It throws what
  \<^verbatim>\<open>isDateAfter\<close> throws. The messages it logs convert
  \<^verbatim>\<open>status.live.lastModified\<close> again, after \<^verbatim>\<open>new Date\<close> has converted it.
\<close>

definition checkLive :: "clock \<Rightarrow> jsval \<Rightarrow> jsval \<Rightarrow> run_state \<Rightarrow> error + run_state" where
  "checkLive tv fix status s =
     (if truthy (optDot (dot status ''live'') ''lastModified'') then
        (case isDateAfter tv (dot (dot status ''live'') ''lastModified'')
                (dot fix ''executedAt'') of
           Inl e \<Rightarrow> Inl e
         | Inr after \<Rightarrow>
             if after
             then Inr (s\<lparr>livePublishedPages := livePublishedPages s @ [liveEntry fix status]\<rparr>)
             else Inr s)
      else Inr s)"

text \<open>The preview check of one iteration.\<close>

definition checkPreview :: "clock \<Rightarrow> jsval \<Rightarrow> jsval \<Rightarrow> run_state \<Rightarrow> error + run_state" where
  "checkPreview tv fix status s =
     (if truthy (optDot (dot status ''preview'') ''lastModified'') then
        (case isDateAfter tv (dot (dot status ''preview'') ''lastModified'')
                (dot fix ''executedAt'') of
           Inl e \<Rightarrow> Inl e
         | Inr after \<Rightarrow>
             if after
             then Inr (s\<lparr>previewPublishedPages :=
                            previewPublishedPages s @ [previewEntry fix status]\<rparr>)
             else Inr s)
      else Inr s)"

text \<open>
  One iteration of \<^verbatim>\<open>for (const fix of deployedFixes)\<close>: \<open>Some e\<close> when it throws
  \<open>e\<close>, with the state reached. Its first statement logs
  \<^verbatim>\<open>${fix.documentPath}\<close> and \<^verbatim>\<open>${fix.executedAt}\<close>, before the status is
  asked for.
\<close>

definition iteration ::
  "clock \<Rightarrow> world \<Rightarrow> jsval \<Rightarrow> jsval \<Rightarrow> run_state \<Rightarrow> error option \<times> run_state" where
  "iteration tv W rso fix s =
     (if nullish fix then (Some TypeError, s)
      else if \<not> (convertible (dot fix ''documentPath'') \<and> convertible (dot fix ''executedAt''))
      then (Some TypeError, s)
      else
        (case getHelixStatus W (helixRequests s) (dot fix ''documentPath'') rso of
           (Inl e, sent) \<Rightarrow> (Some e, s\<lparr>helixRequests := sent\<rparr>)
         | (Inr status, sent) \<Rightarrow>
             if \<not> truthy status then (None, s\<lparr>helixRequests := sent\<rparr>)
             else
               (case checkLive tv fix status (s\<lparr>helixRequests := sent\<rparr>) of
                  Inl e \<Rightarrow> (Some e, s\<lparr>helixRequests := sent\<rparr>)
                | Inr s1 \<Rightarrow>
                    (case checkPreview tv fix status s1 of
                       Inl e \<Rightarrow> (Some e, s1)
                     | Inr s2 \<Rightarrow> (None, s2)))))"

fun forOf ::
  "clock \<Rightarrow> world \<Rightarrow> jsval \<Rightarrow> jsval list \<Rightarrow> run_state \<Rightarrow> error option \<times> run_state" where
  "forOf tv W rso [] s = (None, s)"
| "forOf tv W rso (fix # deployedFixes) s =
     (case iteration tv W rso fix s of
        (Some e, s') \<Rightarrow> (Some e, s')
      | (None, s') \<Rightarrow> forOf tv W rso deployedFixes s')"

subsection \<open>The orchestrator\<close>

text \<open>The two lists before the loop, and no admin request made yet.\<close>

definition initialState :: run_state where
  "initialState =
     \<lparr>livePublishedPages = [], previewPublishedPages = [], helixRequests = []\<rparr>"

text \<open>
  Step 5 prints every entry of both lists before it returns: the four properties of the
  entry go through a template literal each.
\<close>

definition printable :: "string \<Rightarrow> string \<Rightarrow> jsval \<Rightarrow> bool" where
  "printable modifiedKey urlKey page =
     (convertible (dot page ''documentPath'') \<and> convertible (dot page ''executedAt'')
      \<and> convertible (dot page modifiedKey) \<and> convertible (dot page urlKey))"

definition summaryPrints :: "run_state \<Rightarrow> bool" where
  "summaryPrints s =
     ((\<forall>page \<in> set (livePublishedPages s). printable ''liveLastModified'' ''liveUrl'' page)
      \<and> (\<forall>page \<in> set (previewPublishedPages s).
            printable ''previewLastModified'' ''previewUrl'' page))"

text \<open>The object returned at the end of step 5.\<close>

definition resultOf :: "run_state \<Rightarrow> jsval" where
  "resultOf s =
     JObj [(''livePublishedPages'',
              JArr (map (\<lambda>p. dot p ''documentPath'') (livePublishedPages s))),
           (''previewPublishedPages'',
              JArr (map (\<lambda>p. dot p ''documentPath'') (previewPublishedPages s))),
           (''details'',
              JObj [(''live'', JArr (livePublishedPages s)),
                    (''preview'', JArr (previewPublishedPages s))])]"

text \<open>
  The body of the \<^verbatim>\<open>try\<close> block of \<^verbatim>\<open>checkPublishedFixes\<close>: what it throws or
  returns, and the admin requests it made. After the routing configuration is found, it
  is logged through the template \<^verbatim>\<open>${rso.owner}/${rso.site}/${rso.ref}\<close>.
\<close>

definition tryBody :: "clock \<Rightarrow> world \<Rightarrow> (error + jsval) \<times> request list" where
  "tryBody tv W =
     (case getSiteDetails W of
        Inl e \<Rightarrow> (Inl e, [])
      | Inr siteDetails \<Rightarrow>
          if nullish siteDetails then (Inl TypeError, [])
          else
            let rso = optDot (dot siteDetails ''hlxConfig'') ''rso'' in
            if \<not> truthy rso then (Inl NoRsoConfig, [])
            else if \<not> (convertible (dot rso ''owner'') \<and> convertible (dot rso ''site'')
                        \<and> convertible (dot rso ''ref'')) then (Inl TypeError, [])
            else
              (case getFixedPages W of
                 Inl e \<Rightarrow> (Inl e, [])
               | Inr fixes \<Rightarrow>
                   (case deployedFixesOf fixes of
                      Inl e \<Rightarrow> (Inl e, [])
                    | Inr deployedFixes \<Rightarrow>
                        if length deployedFixes = 0 then (Inr JUndefined, [])
                        else
                          (case forOf tv W rso deployedFixes initialState of
                             (Some e, s) \<Rightarrow> (Inl e, helixRequests s)
                           | (None, s) \<Rightarrow>
                               if summaryPrints s then (Inr (resultOf s), helixRequests s)
                               else (Inl TypeError, helixRequests s)))))"

text \<open>
  How the run ends: the value the promise of \<^verbatim>\<open>checkPublishedFixes\<close> resolves
  to, or \<^verbatim>\<open>process.exit(1)\<close> from its \<^verbatim>\<open>catch\<close>.
\<close>

datatype outcome = Exit nat | Return jsval

definition checkPublishedFixes :: "clock \<Rightarrow> world \<Rightarrow> outcome \<times> request list" where
  "checkPublishedFixes tv W =
     (case tryBody tv W of
        (Inl e, sent) \<Rightarrow> (Exit 1, sent)
      | (Inr v, sent) \<Rightarrow> (Return v, sent))"

section \<open>Summaries of the script's steps\<close>

text \<open>
  Names for what the functions above compute on the way, used to state the properties:
  the admin request made for a document path, the status \<^verbatim>\<open>getHelixStatus\<close> answers
  for a fetch result (\<^verbatim>\<open>null\<close> on every failure), and the entries one iteration adds to
  each list for the status it got. The lemmas of the next section prove that the script
  computes exactly these.
\<close>

definition adminRequest :: "jsval \<Rightarrow> string \<Rightarrow> request" where
  "adminRequest rso p =
     \<lparr>reqOwner = dot rso ''owner'', reqSite = dot rso ''site'', reqRef = dot rso ''ref'',
      reqPath = cleanPathOf p\<rparr>"

definition statusOf :: "fetched \<Rightarrow> jsval" where
  "statusOf f =
     (case f of
        Rejected \<Rightarrow> JNull
      | Resolved response \<Rightarrow>
          if \<not> respOk response then JNull
          else (case respJson response of None \<Rightarrow> JNull | Some v \<Rightarrow> v))"

definition liveFound :: "clock \<Rightarrow> jsval \<Rightarrow> jsval \<Rightarrow> jsval list" where
  "liveFound tv fix status =
     (if truthy (dot (dot status ''live'') ''lastModified'')
         \<and> isDateAfter tv (dot (dot status ''live'') ''lastModified'')
              (dot fix ''executedAt'') = Inr True
      then [liveEntry fix status] else [])"

definition previewFound :: "clock \<Rightarrow> jsval \<Rightarrow> jsval \<Rightarrow> jsval list" where
  "previewFound tv fix status =
     (if truthy (dot (dot status ''preview'') ''lastModified'')
         \<and> isDateAfter tv (dot (dot status ''preview'') ''lastModified'')
              (dot fix ''executedAt'') = Inr True
      then [previewEntry fix status] else [])"

text \<open>\<^verbatim>\<open>status.live?.lastModified\<close> and \<^verbatim>\<open>status.preview?.lastModified\<close>.\<close>

definition lastModifiedOf :: "string \<Rightarrow> jsval \<Rightarrow> jsval" where
  "lastModifiedOf branchName status = optDot (dot status branchName) ''lastModified''"



text \<open>
  The failures of the status client: the fetch is rejected, the response is not ok, or
  its body is not JSON.
\<close>

definition statusClientFails :: "fetched \<Rightarrow> bool" where
  "statusClientFails f =
     (case f of
        Rejected \<Rightarrow> True
      | Resolved response \<Rightarrow> \<not> respOk response \<or> respJson response = None)"

text \<open>
  The template over the routing configuration evaluates; and an iteration gets as far as
  the fetch of the status: the routing configuration can be read and printed, the fix's
  \<^verbatim>\<open>executedAt\<close> can be printed, and its \<^verbatim>\<open>documentPath\<close> is a string.
\<close>

definition routes :: "jsval \<Rightarrow> bool" where
  "routes rso =
     (convertible (dot rso ''owner'') \<and> convertible (dot rso ''site'')
      \<and> convertible (dot rso ''ref''))"

definition reachesStatusCheck :: "jsval \<Rightarrow> jsval \<Rightarrow> bool" where
  "reachesStatusCheck rso fix =
     (\<not> nullish rso \<and> routes rso \<and> convertible (dot fix ''executedAt'')
      \<and> (case dot fix ''documentPath'' of JStr p \<Rightarrow> True | _ \<Rightarrow> False))"

text \<open>
  The entries a fix has contributed to one list: at most one, carrying the fix's
  \<^verbatim>\<open>documentPath\<close> and \<^verbatim>\<open>executedAt\<close>, with a \<^verbatim>\<open>lastModified\<close> (stored
  under the given key) that is after \<^verbatim>\<open>executedAt\<close>.
\<close>

definition contributes :: "clock \<Rightarrow> string \<Rightarrow> jsval \<Rightarrow> jsval list \<Rightarrow> bool" where
  "contributes tv lastModifiedKey fix entries =
     (length entries \<le> 1
      \<and> (\<forall>e \<in> set entries.
            dot e ''documentPath'' = dot fix ''documentPath''
            \<and> dot e ''executedAt'' = dot fix ''executedAt''
            \<and> isDateAfter tv (dot e lastModifiedKey) (dot fix ''executedAt'') = Inr True))"

text \<open>
  \<^verbatim>\<open>fix.changeDetails?.documentPath\<close> of a fetched fix, and the fetched fixes that
  pass both filters of step 3: the status is \<^verbatim>\<open>DEPLOYED\<close> and the document path is
  truthy (for a string: not empty).
\<close>

definition documentPathOf :: "jsval \<Rightarrow> jsval" where
  "documentPathOf fix = optDot (dot fix ''changeDetails'') ''documentPath''"

definition qualifies :: "jsval \<Rightarrow> bool" where
  "qualifies fix = (dot fix ''status'' = JStr ''DEPLOYED'' \<and> truthy (documentPathOf fix))"

text \<open>
  \<^verbatim>\<open>siteDetails.hlxConfig?.rso\<close>, and what the loop of step 4 is run with: nothing
  when the run throws or returns before it.
\<close>

definition rsoOf :: "jsval \<Rightarrow> jsval" where
  "rsoOf siteDetails = optDot (dot siteDetails ''hlxConfig'') ''rso''"

definition loopInput :: "world \<Rightarrow> (jsval \<times> jsval list) option" where
  "loopInput W =
     (case getSiteDetails W of
        Inl e \<Rightarrow> None
      | Inr siteDetails \<Rightarrow>
          if nullish siteDetails \<or> \<not> truthy (rsoOf siteDetails) \<or> \<not> routes (rsoOf siteDetails)
          then None
          else (case getFixedPages W of
                  Inl e \<Rightarrow> None
                | Inr fixes \<Rightarrow>
                    (case deployedFixesOf fixes of
                       Inl e \<Rightarrow> None
                     | Inr deployedFixes \<Rightarrow>
                         if deployedFixes = [] then None
                         else Some (rsoOf siteDetails, deployedFixes))))"

text \<open>
  The fixes as fetched in step 2, and a request that is the status check of a fetched
  fix: the fix is deployed and the request asks for its document path, a non-empty
  string, without the leading slashes.
\<close>

definition fetchedFixes :: "world \<Rightarrow> jsval list" where
  "fetchedFixes W = (case getFixedPages W of Inr (JArr xs) \<Rightarrow> xs | _ \<Rightarrow> [])"

definition checkedFor :: "request \<Rightarrow> jsval \<Rightarrow> bool" where
  "checkedFor r fix =
     (dot fix ''status'' = JStr ''DEPLOYED''
      \<and> (case documentPathOf fix of
            JStr p \<Rightarrow> p \<noteq> [] \<and> reqPath r = cleanPathOf p
          | _ \<Rightarrow> False))"

text \<open>
  The structured result: both detail lists are arrays, and the two lists of pages are the
  document paths of their entries.
\<close>

definition structured :: "jsval \<Rightarrow> bool" where
  "structured v =
     (case dot (dot v ''details'') ''live'' of
        JArr lives \<Rightarrow>
          (case dot (dot v ''details'') ''preview'' of
             JArr previews \<Rightarrow>
               dot v ''livePublishedPages'' = JArr (map (\<lambda>p. dot p ''documentPath'') lives)
               \<and> dot v ''previewPublishedPages''
                   = JArr (map (\<lambda>p. dot p ''documentPath'') previews)
           | _ \<Rightarrow> False)
      | _ \<Rightarrow> False)"







text \<open>
  \<^verbatim>\<open>status[k] = v\<close> on an object, and a world in which every status object the admin
  service sends has its branch \<open>k\<close> replaced, by a value that may depend on the request.
\<close>

definition setProperty :: "string \<Rightarrow> jsval \<Rightarrow> jsval \<Rightarrow> jsval" where
  "setProperty k v status = (case status of JObj kvs \<Rightarrow> JObj (kvs @ [(k, v)]) | _ \<Rightarrow> status)"

definition withBranch :: "string \<Rightarrow> (nat \<Rightarrow> request \<Rightarrow> jsval) \<Rightarrow> world \<Rightarrow> world" where
  "withBranch k g W =
     W\<lparr>helixResponse :=
         (\<lambda>n r. case helixResponse W n r of
                   Rejected \<Rightarrow> Rejected
                 | Resolved response \<Rightarrow>
                     Resolved (response\<lparr>respJson :=
                       map_option (setProperty k (g n r)) (respJson response)\<rparr>))\<rparr>"

section \<open>A reference clock and a sample run\<close>

text \<open>
  A clock for concrete runs. It reads a string in the full UTC form of the ECMAScript
  date-time format, \<^verbatim>\<open>YYYY-MM-DDTHH:mm:ss.sssZ\<close>, with every field in its range,
  and converts the primitives as the \<^verbatim>\<open>Date\<close> constructor does (\<^verbatim>\<open>null\<close> is the
  epoch, a number is clipped to the range of time values and truncated). It is not a
  whole engine: the shorter ISO forms, the other formats an engine accepts, days an engine
  rolls over into the next month, and the strings that objects and arrays convert to are
  all answered as the invalid date. The theorems below hold for every clock; this one
  only serves to run the script on concrete data, on strings in the full form and on
  primitives, where it agrees with the engines.
\<close>

definition digitOf :: "char \<Rightarrow> nat option" where
  "digitOf c =
     (let n = (of_char c :: nat) in if 48 \<le> n \<and> n \<le> 57 then Some (n - 48) else None)"

fun numberOf :: "string \<Rightarrow> nat \<Rightarrow> nat option" where
  "numberOf [] acc = Some acc"
| "numberOf (c # cs) acc =
     (case digitOf c of None \<Rightarrow> None | Some d \<Rightarrow> numberOf cs (10 * acc + d))"

definition daysInMonth :: "nat \<Rightarrow> nat \<Rightarrow> nat" where
  "daysInMonth y m =
     (if m = 2 then (if y mod 4 = 0 \<and> (y mod 100 \<noteq> 0 \<or> y mod 400 = 0) then 29 else 28)
      else if m = 4 \<or> m = 6 \<or> m = 9 \<or> m = 11 then 30 else 31)"

text \<open>Days between the epoch and a day of the proleptic Gregorian calendar.\<close>

definition daysFromCivil :: "int \<Rightarrow> int \<Rightarrow> int \<Rightarrow> int" where
  "daysFromCivil y m d =
     (let y' = (if m \<le> 2 then y - 1 else y);
          era = y' div 400;
          yoe = y' - era * 400;
          doy = (153 * (if 2 < m then m - 3 else m + 9) + 2) div 5 + d - 1;
          doe = yoe * 365 + yoe div 4 - yoe div 100 + doy
      in era * 146097 + doe - 719468)"

definition isoTime :: "string \<Rightarrow> int option" where
  "isoTime s =
     (if length s = 24 \<and> s ! 4 = CHR ''-'' \<and> s ! 7 = CHR ''-'' \<and> s ! 10 = CHR ''T''
         \<and> s ! 13 = CHR '':'' \<and> s ! 16 = CHR '':'' \<and> s ! 19 = CHR ''.''
         \<and> s ! 23 = CHR ''Z''
      then
        (case (numberOf (take 4 s) 0, numberOf (take 2 (drop 5 s)) 0,
               numberOf (take 2 (drop 8 s)) 0, numberOf (take 2 (drop 11 s)) 0,
               numberOf (take 2 (drop 14 s)) 0, numberOf (take 2 (drop 17 s)) 0,
               numberOf (take 3 (drop 20 s)) 0) of
           (Some y, Some mo, Some d, Some h, Some mi, Some sec, Some ms) \<Rightarrow>
             if 1 \<le> mo \<and> mo \<le> 12 \<and> 1 \<le> d \<and> d \<le> daysInMonth y mo
                \<and> (h < 24 \<or> (h = 24 \<and> mi = 0 \<and> sec = 0 \<and> ms = 0))
                \<and> mi < 60 \<and> sec < 60
             then Some (daysFromCivil (int y) (int mo) (int d) * 86400000
                        + int h * 3600000 + int mi * 60000 + int sec * 1000 + int ms)
             else None
         | _ \<Rightarrow> None)
      else None)"

definition timeClip :: "jsnum \<Rightarrow> int option" where
  "timeClip n =
     (case n of
        Fin q \<Rightarrow>
          if \<bar>q\<bar> \<le> 8640000000000000 then Some (if 0 \<le> q then \<lfloor>q\<rfloor> else \<lceil>q\<rceil>)
          else None
      | _ \<Rightarrow> None)"

fun isoClock :: clock where
  "isoClock (JStr s) = isoTime s"
| "isoClock JUndefined = None"
| "isoClock JNull = Some 0"
| "isoClock (JBool b) = Some (if b then 1 else 0)"
| "isoClock (JNum n) = timeClip n"
| "isoClock (JArr xs) = None"
| "isoClock (JObj kvs) = None"

text \<open>
  A site with five fixes: three deployed with a document path, one pending, one deployed
  without a path. The admin service reports the first page live after its fix (and
  previewed before it), the second only previewed, after its fix, and fails on the third.
\<close>

definition sampleSite :: jsval where
  "sampleSite =
     JObj [(''id'', JStr ''da39921f''),
           (''hlxConfig'',
              JObj [(''rso'', JObj [(''owner'', JStr ''bamboohr''),
                                    (''site'', JStr ''bamboohr-website''),
                                    (''ref'', JStr ''main'')])])]"

definition sampleFix :: "string \<Rightarrow> string \<Rightarrow> string \<Rightarrow> jsval \<Rightarrow> jsval" where
  "sampleFix fixId fixStatus executed details =
     JObj [(''id'', JStr fixId), (''status'', JStr fixStatus), (''executedAt'', JStr executed),
           (''changeDetails'', details)]"

definition sampleFixes :: "jsval list" where
  "sampleFixes =
     [sampleFix ''fix-1'' ''DEPLOYED'' ''2025-07-11T15:28:23.948Z''
        (JObj [(''documentPath'', JStr ''/resources/hr-glossary/form-940'')]),
      sampleFix ''fix-2'' ''PENDING'' ''2025-07-11T15:30:00.000Z''
        (JObj [(''documentPath'', JStr ''/pending'')]),
      sampleFix ''fix-3'' ''DEPLOYED'' ''2025-07-12T08:00:00.000Z''
        (JObj [(''documentPath'', JStr ''//blog/payroll'')]),
      sampleFix ''fix-4'' ''DEPLOYED'' ''2025-07-12T09:00:00.000Z'' (JObj []),
      sampleFix ''fix-5'' ''DEPLOYED'' ''2025-07-12T10:00:00.000Z''
        (JObj [(''documentPath'', JStr ''/about'')])]"

definition branch :: "string \<Rightarrow> string \<Rightarrow> jsval" where
  "branch modified u = JObj [(''lastModified'', JStr modified), (''url'', JStr u)]"

definition sampleHelix :: "nat \<Rightarrow> request \<Rightarrow> fetched" where
  "sampleHelix n r =
     (if reqPath r = ''resources/hr-glossary/form-940'' then
        Resolved \<lparr>respOk = True, respJson = Some (JObj
          [(''live'', branch ''2025-07-11T16:30:00.000Z'' ''https://live/form-940''),
           (''preview'', branch ''2025-07-11T10:00:00.000Z'' ''https://page/form-940'')])\<rparr>
      else if reqPath r = ''blog/payroll'' then
        Resolved \<lparr>respOk = True, respJson = Some (JObj
          [(''preview'', branch ''2025-07-12T08:30:00.000Z'' ''https://page/payroll'')])\<rparr>
      else if reqPath r = ''about'' then Resolved \<lparr>respOk = False, respJson = None\<rparr>
      else Rejected)"

definition sampleWorld :: world where
  "sampleWorld =
     \<lparr>siteResponse = Resolved \<lparr>respOk = True, respJson = Some sampleSite\<rparr>,
      fixesResponse = Resolved \<lparr>respOk = True, respJson = Some (JArr sampleFixes)\<rparr>,
      helixResponse = sampleHelix\<rparr>"

text \<open>The routing configuration of the sample site, as the orchestrator reads it.\<close>

definition sampleRso :: jsval where
  "sampleRso = optDot (dot sampleSite ''hlxConfig'') ''rso''"

text \<open>An admin service whose timestamps no clock can read.\<close>

definition garbledStatus :: jsval where
  "garbledStatus =
     JObj [(''live'', branch ''yesterday'' ''https://live/a''),
           (''preview'', branch ''soon'' ''https://page/a'')]"

definition garbledWorld :: world where
  "garbledWorld =
     sampleWorld\<lparr>helixResponse :=
       (\<lambda>n r. Resolved \<lparr>respOk = True, respJson = Some garbledStatus\<rparr>)\<rparr>"

text \<open>What step 3 keeps of the sample fixes.\<close>

definition sampleDeployed :: "jsval list" where
  "sampleDeployed =
     [extractFix (sampleFixes ! 0), extractFix (sampleFixes ! 2), extractFix (sampleFixes ! 4)]"

text \<open>The sample site with no fixes at all.\<close>

definition emptyWorld :: world where
  "emptyWorld = sampleWorld\<lparr>fixesResponse := Resolved \<lparr>respOk = True, respJson = Some (JArr [])\<rparr>\<rparr>"

text \<open>What the run on the sample site returns.\<close>

definition sampleResult :: jsval where
  "sampleResult =
     JObj [(''livePublishedPages'', JArr [JStr ''/resources/hr-glossary/form-940'']),
           (''previewPublishedPages'', JArr [JStr ''//blog/payroll'']),
           (''details'',
              JObj [(''live'',
                       JArr [JObj [(''documentPath'', JStr ''/resources/hr-glossary/form-940''),
                                   (''executedAt'', JStr ''2025-07-11T15:28:23.948Z''),
                                   (''liveLastModified'', JStr ''2025-07-11T16:30:00.000Z''),
                                   (''liveUrl'', JStr ''https://live/form-940'')]]),
                    (''preview'',
                       JArr [JObj [(''documentPath'', JStr ''//blog/payroll''),
                                   (''executedAt'', JStr ''2025-07-12T08:00:00.000Z''),
                                   (''previewLastModified'', JStr ''2025-07-12T08:30:00.000Z''),
                                   (''previewUrl'', JStr ''https://page/payroll'')]])])]"












definition laterLives :: world where
  "laterLives =
     withBranch ''live'' (\<lambda>n r. branch ''2030-01-01T00:00:00.000Z'' ''https://live/new'')
       sampleWorld"

section \<open>Lemmas about the steps\<close>

lemma optDot_dot: "optDot v k = dot v k"
  by (cases v) (simp_all add: optDot_def nullish_def)

lemma truthy_not_nullish: "truthy v \<Longrightarrow> \<not> nullish v"
  by (cases v) (simp_all add: nullish_def)

lemma falsy_dot: "\<not> truthy st \<Longrightarrow> dot st k = JUndefined"
  by (cases st) simp_all

lemma falsy_convertible: "\<not> truthy v \<Longrightarrow> convertible v"
  by (cases v) simp_all

lemma dot_string_not_nullish: "dot fix k = JStr p \<Longrightarrow> \<not> nullish fix"
  by (cases "fix") (simp_all add: nullish_def)

lemma lastModifiedOf_dot:
  "lastModifiedOf branchName status = dot (dot status branchName) ''lastModified''"
  by (simp add: lastModifiedOf_def optDot_dot)

lemma isDateAfter_convertible:
  "convertible a \<Longrightarrow> convertible b \<Longrightarrow>
   isDateAfter tv a b = Inr (\<exists>ta tb. tv a = Some ta \<and> tv b = Some tb \<and> tb < ta)"
  by (auto simp: isDateAfter_def parseDate_def dateGreater_def split: option.splits)

lemma isDateAfter_throws:
  "\<not> convertible a \<or> \<not> convertible b \<Longrightarrow> isDateAfter tv a b = Inl TypeError"
  by (auto simp: isDateAfter_def parseDate_def)

lemma isDateAfter_True_iff:
  "(isDateAfter tv a b = Inr True)
     = (convertible a \<and> convertible b \<and> (\<exists>ta tb. tv a = Some ta \<and> tv b = Some tb \<and> tb < ta))"
proof (cases "convertible a \<and> convertible b")
  case True
  then show ?thesis by (simp add: isDateAfter_convertible)
next
  case False
  then have "isDateAfter tv a b = Inl TypeError" by (intro isDateAfter_throws) blast
  with False show ?thesis by auto
qed


lemma checkLive_eq:
  assumes "convertible (dot fix ''executedAt'')"
  shows "checkLive tv fix status s =
     (if \<not> convertible (dot (dot status ''live'') ''lastModified'') then Inl TypeError
      else Inr (s\<lparr>livePublishedPages := livePublishedPages s @ liveFound tv fix status\<rparr>))"
proof (cases "convertible (dot (dot status ''live'') ''lastModified'')")
  case True
  with assms show ?thesis
    by (simp add: checkLive_def liveFound_def optDot_dot isDateAfter_convertible)
next
  case False
  then have "truthy (dot (dot status ''live'') ''lastModified'')"
    using falsy_convertible by blast
  with False show ?thesis
    by (simp add: checkLive_def optDot_dot isDateAfter_throws)
qed

lemma checkPreview_eq:
  assumes "convertible (dot fix ''executedAt'')"
  shows "checkPreview tv fix status s =
     (if \<not> convertible (dot (dot status ''preview'') ''lastModified'') then Inl TypeError
      else Inr (s\<lparr>previewPublishedPages :=
                    previewPublishedPages s @ previewFound tv fix status\<rparr>))"
proof (cases "convertible (dot (dot status ''preview'') ''lastModified'')")
  case True
  with assms show ?thesis
    by (simp add: checkPreview_def previewFound_def optDot_dot isDateAfter_convertible)
next
  case False
  then have "truthy (dot (dot status ''preview'') ''lastModified'')"
    using falsy_convertible by blast
  with False show ?thesis
    by (simp add: checkPreview_def optDot_dot isDateAfter_throws)
qed

lemma getHelixStatus_string:
  "\<not> nullish rso \<Longrightarrow> routes rso \<Longrightarrow>
   getHelixStatus W sent (JStr p) rso =
     (Inr (statusOf (helixResponse W (length sent) (adminRequest rso p))),
      sent @ [adminRequest rso p])"
  by (simp add: getHelixStatus_def statusOf_def adminRequest_def routes_def Let_def
           split: fetched.splits option.splits)

lemma getHelixStatus_throws:
  "nullish rso \<or> \<not> routes rso \<or> (\<forall>p. documentPath \<noteq> JStr p) \<Longrightarrow>
   getHelixStatus W sent documentPath rso = (Inl TypeError, sent)"
  by (cases documentPath) (auto simp: getHelixStatus_def routes_def)

lemma getHelixStatus_Inr:
  assumes "getHelixStatus W sent documentPath rso = (Inr status, sent')"
  shows "\<not> nullish rso \<and> routes rso \<and> (\<exists>p. documentPath = JStr p
           \<and> status = statusOf (helixResponse W (length sent) (adminRequest rso p))
           \<and> sent' = sent @ [adminRequest rso p])"
proof (cases "nullish rso \<or> \<not> routes rso \<or> (\<forall>p. documentPath \<noteq> JStr p)")
  case True
  from getHelixStatus_throws [OF True] assms show ?thesis by simp
next
  case False
  then obtain p where "documentPath = JStr p" and "\<not> nullish rso" and "routes rso" by auto
  with assms getHelixStatus_string [of rso W sent p] show ?thesis by simp
qed

lemma reachesStatusCheck_iff:
  "reachesStatusCheck rso fix =
     (\<not> nullish rso \<and> routes rso \<and> convertible (dot fix ''executedAt'')
      \<and> (\<exists>p. dot fix ''documentPath'' = JStr p))"
  by (cases "dot fix ''documentPath''") (simp_all add: reachesStatusCheck_def)

lemma iteration_throws:
  assumes "\<not> reachesStatusCheck rso fix"
  shows "iteration tv W rso fix s = (Some TypeError, s)"
proof (cases "nullish rso \<or> \<not> routes rso \<or> (\<forall>p. dot fix ''documentPath'' \<noteq> JStr p)")
  case True
  from getHelixStatus_throws [OF True, of W "helixRequests s"] show ?thesis
    by (simp add: iteration_def)
next
  case False
  with assms have "\<not> convertible (dot fix ''executedAt'')"
    by (auto simp: reachesStatusCheck_iff)
  then show ?thesis by (simp add: iteration_def)
qed

lemma iteration_fetched:
  assumes get: "getHelixStatus W (helixRequests s) (dot fix ''documentPath'') rso
                  = (Inr status, sent)"
    and ex: "convertible (dot fix ''executedAt'')"
  shows "iteration tv W rso fix s =
     (if \<not> convertible (dot (dot status ''live'') ''lastModified'')
      then (Some TypeError, s\<lparr>helixRequests := sent\<rparr>)
      else if \<not> convertible (dot (dot status ''preview'') ''lastModified'')
      then (Some TypeError,
            s\<lparr>livePublishedPages := livePublishedPages s @ liveFound tv fix status,
              helixRequests := sent\<rparr>)
      else (None,
            s\<lparr>livePublishedPages := livePublishedPages s @ liveFound tv fix status,
              previewPublishedPages := previewPublishedPages s @ previewFound tv fix status,
              helixRequests := sent\<rparr>))"
proof -
  from getHelixStatus_Inr [OF get] obtain p where p: "dot fix ''documentPath'' = JStr p"
    by blast
  then have nn: "\<not> nullish fix" by (rule dot_string_not_nullish)
  show ?thesis
  proof (cases "truthy status")
    case True
    with nn p ex get show ?thesis
      by (simp add: iteration_def checkLive_eq checkPreview_eq)
  next
    case False
    then have "dot status ''live'' = JUndefined" and "dot status ''preview'' = JUndefined"
      by (simp_all add: falsy_dot)
    with False nn p ex get show ?thesis
      by (simp add: iteration_def liveFound_def previewFound_def)
  qed
qed

lemma iteration_reaches:
  assumes "reachesStatusCheck rso fix"
  shows "\<exists>p. dot fix ''documentPath'' = JStr p
           \<and> getHelixStatus W (helixRequests s) (dot fix ''documentPath'') rso
               = (Inr (statusOf (helixResponse W (length (helixRequests s)) (adminRequest rso p))),
                  helixRequests s @ [adminRequest rso p])"
  using assms getHelixStatus_string [of rso W "helixRequests s"]
  by (auto simp: reachesStatusCheck_iff)

lemma contributes_liveFound: "contributes tv ''liveLastModified'' fix (liveFound tv fix status)"
  by (simp add: contributes_def liveFound_def liveEntry_def)

lemma contributes_previewFound:
  "contributes tv ''previewLastModified'' fix (previewFound tv fix status)"
  by (simp add: contributes_def previewFound_def previewEntry_def)

lemma contributes_Nil: "contributes tv k fix []"
  by (simp add: contributes_def)

lemma iteration_shape:
  assumes "iteration tv W rso fix s = (err, s')"
  shows "\<exists>l p rq.
           livePublishedPages s' = livePublishedPages s @ l
         \<and> previewPublishedPages s' = previewPublishedPages s @ p
         \<and> helixRequests s' = helixRequests s @ rq
         \<and> contributes tv ''liveLastModified'' fix l
         \<and> contributes tv ''previewLastModified'' fix p
         \<and> (rq = [] \<and> err \<noteq> None
            \<or> (\<exists>q. dot fix ''documentPath'' = JStr q \<and> rq = [adminRequest rso q]))"
proof (cases "reachesStatusCheck rso fix")
  case False
  from iteration_throws [OF False, of tv W s] assms have "err = Some TypeError" "s' = s"
    by simp_all
  then show ?thesis
    by (intro exI [of _ "[]"]) (simp add: contributes_Nil)
next
  case True
  from iteration_reaches [OF True, of W s] obtain q where
    q: "dot fix ''documentPath'' = JStr q"
    and get: "getHelixStatus W (helixRequests s) (dot fix ''documentPath'') rso
               = (Inr (statusOf (helixResponse W (length (helixRequests s)) (adminRequest rso q))),
                  helixRequests s @ [adminRequest rso q])"
    by blast
  let ?st = "statusOf (helixResponse W (length (helixRequests s)) (adminRequest rso q))"
  from True have ex: "convertible (dot fix ''executedAt'')"
    by (simp add: reachesStatusCheck_iff)
  note it = iteration_fetched [OF get ex, of tv]
  consider (a) "\<not> convertible (dot (dot ?st ''live'') ''lastModified'')"
    | (b) "convertible (dot (dot ?st ''live'') ''lastModified'')"
          "\<not> convertible (dot (dot ?st ''preview'') ''lastModified'')"
    | (c) "convertible (dot (dot ?st ''live'') ''lastModified'')"
          "convertible (dot (dot ?st ''preview'') ''lastModified'')"
    by blast
  then show ?thesis
  proof cases
    case a
    with it assms have "s' = s\<lparr>helixRequests := helixRequests s @ [adminRequest rso q]\<rparr>"
      by simp
    with q show ?thesis
      by (intro exI [of _ "[]"] exI [of _ "[adminRequest rso q]"]) (simp add: contributes_Nil)
  next
    case b
    with it assms have "s' = s\<lparr>livePublishedPages := livePublishedPages s @ liveFound tv fix ?st,
              helixRequests := helixRequests s @ [adminRequest rso q]\<rparr>"
      by simp
    with q show ?thesis
      by (intro exI [of _ "liveFound tv fix ?st"] exI [of _ "[]"]
            exI [of _ "[adminRequest rso q]"])
         (simp add: contributes_Nil contributes_liveFound)
  next
    case c
    with it assms have "s' = s\<lparr>livePublishedPages := livePublishedPages s @ liveFound tv fix ?st,
              previewPublishedPages := previewPublishedPages s @ previewFound tv fix ?st,
              helixRequests := helixRequests s @ [adminRequest rso q]\<rparr>"
      by simp
    with q show ?thesis
      by (intro exI [of _ "liveFound tv fix ?st"] exI [of _ "previewFound tv fix ?st"]
            exI [of _ "[adminRequest rso q]"])
         (simp add: contributes_liveFound contributes_previewFound)
  qed
qed

lemma forOf_append:
  "forOf tv W rso (xs @ ys) s =
     (case forOf tv W rso xs s of
        (Some e, s') \<Rightarrow> (Some e, s')
      | (None, s') \<Rightarrow> forOf tv W rso ys s')"
  by (induction xs arbitrary: s) (auto split: prod.splits option.splits)

lemma forOf_contributions:
  assumes "forOf tv W rso fixes s = (err, s')"
  shows "\<exists>lives previews.
           length lives = length previews \<and> length lives \<le> length fixes
         \<and> (err = None \<longrightarrow> length lives = length fixes)
         \<and> livePublishedPages s' = livePublishedPages s @ concat lives
         \<and> previewPublishedPages s' = previewPublishedPages s @ concat previews
         \<and> list_all2 (contributes tv ''liveLastModified'') (take (length lives) fixes) lives
         \<and> list_all2 (contributes tv ''previewLastModified'')
              (take (length previews) fixes) previews"
  using assms
proof (induction "fixes" arbitrary: s)
  case Nil
  then show ?case by simp
next
  case (Cons f rest)
  obtain e1 s1 where it: "iteration tv W rso f s = (e1, s1)" by (cases "iteration tv W rso f s")
  from iteration_shape [OF it] obtain l p where
    lp: "livePublishedPages s1 = livePublishedPages s @ l"
        "previewPublishedPages s1 = previewPublishedPages s @ p"
        "contributes tv ''liveLastModified'' f l"
        "contributes tv ''previewLastModified'' f p"
    by blast
  show ?case
  proof (cases e1)
    case (Some e)
    with it Cons.prems have "err = Some e" "s' = s1" by simp_all
    with lp show ?thesis
      by (intro exI [of _ "[l]"] exI [of _ "[p]"]) simp
  next
    case None
    with it Cons.prems have "forOf tv W rso rest s1 = (err, s')" by simp
    from Cons.IH [OF this] obtain lives previews where
      r: "length lives = length previews" "length lives \<le> length rest"
         "err = None \<longrightarrow> length lives = length rest"
         "livePublishedPages s' = livePublishedPages s1 @ concat lives"
         "previewPublishedPages s' = previewPublishedPages s1 @ concat previews"
         "list_all2 (contributes tv ''liveLastModified'') (take (length lives) rest) lives"
         "list_all2 (contributes tv ''previewLastModified'') (take (length previews) rest) previews"
      by blast
    with lp show ?thesis
      by (intro exI [of _ "l # lives"] exI [of _ "p # previews"]) simp
  qed
qed

lemma forOf_requests:
  assumes "forOf tv W rso ds s = (err, s')"
  shows "\<exists>rqs. helixRequests s' = helixRequests s @ rqs \<and> length rqs \<le> length ds
           \<and> (\<forall>i < length rqs. \<exists>q. dot (ds ! i) ''documentPath'' = JStr q
                                  \<and> rqs ! i = adminRequest rso q)"
  using assms
proof (induction ds arbitrary: s)
  case Nil
  then show ?case by simp
next
  case (Cons d rest)
  obtain e1 s1 where it: "iteration tv W rso d s = (e1, s1)" by (cases "iteration tv W rso d s")
  from iteration_shape [OF it] obtain rq where
    rq: "helixRequests s1 = helixRequests s @ rq"
        "rq = [] \<and> e1 \<noteq> None \<or> (\<exists>q. dot d ''documentPath'' = JStr q \<and> rq = [adminRequest rso q])"
    by blast
  show ?case
  proof (cases e1)
    case (Some e)
    with it Cons.prems have "s' = s1" by simp
    with rq show ?thesis
      by (intro exI [of _ rq]) auto
  next
    case None
    with rq obtain q where q: "dot d ''documentPath'' = JStr q" "rq = [adminRequest rso q]"
      by auto
    from None it Cons.prems have "forOf tv W rso rest s1 = (err, s')" by simp
    from Cons.IH [OF this] obtain rqs where
      r: "helixRequests s' = helixRequests s1 @ rqs" "length rqs \<le> length rest"
         "\<forall>i < length rqs. \<exists>q. dot (rest ! i) ''documentPath'' = JStr q
                              \<and> rqs ! i = adminRequest rso q"
      by blast
    have "\<forall>i < length (adminRequest rso q # rqs).
            \<exists>q'. dot ((d # rest) ! i) ''documentPath'' = JStr q'
                 \<and> (adminRequest rso q # rqs) ! i = adminRequest rso q'"
      using q(1) r(3) by (auto simp: nth_Cons split: nat.splits)
    with r(1,2) rq(1) q(2) show ?thesis
      by (intro exI [of _ "adminRequest rso q # rqs"]) simp
  qed
qed

lemma filterDeployed_eq:
  "filterDeployed xs =
     (if \<exists>x \<in> set xs. nullish x then Inl TypeError
      else Inr (filter (\<lambda>f. dot f ''status'' = JStr ''DEPLOYED'') xs))"
  by (induction xs) auto

lemma dot_extractFix_documentPath: "dot (extractFix f) ''documentPath'' = documentPathOf f"
  by (simp add: extractFix_def documentPathOf_def)

lemma dot_extractFix_status: "dot (extractFix f) ''status'' = JUndefined"
  by (simp add: extractFix_def)

lemma extractFix_not_nullish: "\<not> nullish (extractFix f)"
  by (simp add: extractFix_def nullish_def)

lemma deployedFixesOf_array:
  "deployedFixesOf (JArr xs) =
     (if \<exists>x \<in> set xs. nullish x then Inl TypeError
      else Inr (map extractFix (filter qualifies xs)))"
proof -
  have "filter hasDocumentPath (map extractFix ys) =
          map extractFix (filter (\<lambda>f. truthy (documentPathOf f)) ys)" for ys
    by (induction ys) (simp_all add: hasDocumentPath_def dot_extractFix_documentPath)
  moreover have "filter (\<lambda>f. dot f ''status'' = JStr ''DEPLOYED'' \<and> truthy (documentPathOf f)) xs
                   = filter qualifies xs"
    by (rule filter_cong) (simp_all add: qualifies_def)
  ultimately show ?thesis
    by (simp add: deployedFixesOf_def filterDeployed_eq)
qed

lemma deployedFixesOf_Inr:
  assumes "deployedFixesOf v = Inr ds"
  shows "\<exists>xs. v = JArr xs \<and> (\<forall>x \<in> set xs. \<not> nullish x) \<and> ds = map extractFix (filter qualifies xs)"
proof (cases v)
  case (JArr xs)
  with assms show ?thesis by (auto simp: deployedFixesOf_array split: if_splits)
qed (use assms in \<open>simp_all add: deployedFixesOf_def\<close>)

lemma hasDocumentPath_extractFix: "hasDocumentPath (extractFix f) = truthy (documentPathOf f)"
  by (simp add: hasDocumentPath_def dot_extractFix_documentPath)

lemma not_qualifies_extractFix: "\<not> qualifies (extractFix f)"
  by (simp add: qualifies_def dot_extractFix_status)

lemma structured_resultOf: "structured (resultOf s)"
  by (simp add: structured_def resultOf_def)


lemma qualifies_not_nullish: "qualifies f \<Longrightarrow> \<not> nullish f"
  by (auto simp: qualifies_def nullish_def)

lemma deployedFixesOf_selected:
  assumes "deployedFixesOf (JArr fixes) = Inr ds"
  shows "deployedFixesOf (JArr (filter qualifies fixes)) = Inr ds"
proof -
  from deployedFixesOf_Inr [OF assms] have "ds = map extractFix (filter qualifies fixes)"
    by simp
  moreover have "\<not> (\<exists>x \<in> set (filter qualifies fixes). nullish x)"
    by (auto dest: qualifies_not_nullish)
  ultimately show ?thesis by (simp add: deployedFixesOf_array)
qed

lemma contributes_paths:
  assumes "list_all2 (contributes tv k) xs ls"
  shows "subseq (map (\<lambda>e. dot e ''documentPath'') (concat ls))
           (map (\<lambda>f. dot f ''documentPath'') xs)"
  using assms
proof (induction rule: list_all2_induct)
  case Nil
  show ?case by simp
next
  case (Cons x xs l ls)
  from Cons.hyps(1) have "map (\<lambda>e. dot e ''documentPath'') l = []
      \<or> map (\<lambda>e. dot e ''documentPath'') l = [dot x ''documentPath'']"
    by (cases l) (auto simp: contributes_def)
  with Cons.IH show ?case
    by (auto intro: subseq_Cons2 list_emb_Cons)
qed

lemma subseq_map_take: "subseq (map f (take n xs)) (map f xs)"
  by (simp add: subseq_map prefix_imp_subseq take_is_prefix)

lemma tryBody_loop:
  assumes "loopInput W = Some (rso, ds)"
  shows "tryBody tv W =
           (case forOf tv W rso ds initialState of
              (Some e, s) \<Rightarrow> (Inl e, helixRequests s)
            | (None, s) \<Rightarrow>
                if summaryPrints s then (Inr (resultOf s), helixRequests s)
                else (Inl TypeError, helixRequests s))"
  using assms
  by (auto simp: loopInput_def tryBody_def rsoOf_def routes_def Let_def
           split: sum.splits if_splits)

lemma tryBody_no_loop:
  assumes "loopInput W = None"
  shows "snd (tryBody tv W) = [] \<and> (\<forall>v. fst (tryBody tv W) = Inr v \<longrightarrow> v = JUndefined)"
  using assms
  by (auto simp: loopInput_def tryBody_def rsoOf_def routes_def Let_def
           split: sum.splits if_splits)

lemma tryBody_returns_early:
  assumes "loopInput W = None" and "fst (tryBody tv W) = Inr v"
  shows "v = JUndefined \<and> filter qualifies (fetchedFixes W) = []"
  using assms
  by (auto simp: loopInput_def tryBody_def rsoOf_def routes_def Let_def fetchedFixes_def
           split: sum.splits if_splits dest!: deployedFixesOf_Inr)

lemma loopInput_Some:
  assumes "loopInput W = Some (rso, ds)"
  shows "truthy rso \<and> routes rso \<and> ds \<noteq> []
         \<and> ds = map extractFix (filter qualifies (fetchedFixes W))
         \<and> (\<forall>x \<in> set (fetchedFixes W). \<not> nullish x)"
proof -
  from assms obtain fetched where f: "getFixedPages W = Inr fetched"
    "deployedFixesOf fetched = Inr ds" "truthy rso" "routes rso" "ds \<noteq> []"
    by (auto simp: loopInput_def split: sum.splits if_splits)
  from deployedFixesOf_Inr [OF f(2)] f(1)
  have "ds = map extractFix (filter qualifies (fetchedFixes W))
     \<and> (\<forall>x \<in> set (fetchedFixes W). \<not> nullish x)"
    by (auto simp: fetchedFixes_def)
  with f show ?thesis by simp
qed

lemma requests_run:
  "snd (checkPublishedFixes tv W) =
     (case loopInput W of
        None \<Rightarrow> []
      | Some (rso, ds) \<Rightarrow> helixRequests (snd (forOf tv W rso ds initialState)))"
proof (cases "loopInput W")
  case None
  from tryBody_no_loop [OF None, of tv] show ?thesis
    by (auto simp: checkPublishedFixes_def None split: prod.splits sum.splits)
next
  case (Some a)
  obtain rso ds where a: "a = (rso, ds)" by (cases a)
  from tryBody_loop [OF Some [unfolded a], of tv] show ?thesis
    by (auto simp: checkPublishedFixes_def Some a split: prod.splits sum.splits option.splits)
qed

lemma forOf_checkedFor:
  assumes q: "\<forall>f \<in> set qs. qualifies f"
    and run: "forOf tv W rso (map extractFix qs) s = (err, s')"
    and s: "helixRequests s = []"
  shows "list_all2 checkedFor (helixRequests s') (take (length (helixRequests s')) qs)"
proof -
  from forOf_requests [OF run] s obtain rqs where
    r: "helixRequests s' = rqs" "length rqs \<le> length qs"
       "\<forall>i < length rqs. \<exists>p. dot (map extractFix qs ! i) ''documentPath'' = JStr p
                            \<and> rqs ! i = adminRequest rso p"
    by auto
  have "checkedFor (rqs ! i) (qs ! i)" if i: "i < length rqs" for i
  proof -
    from i r(2) have iq: "i < length qs" by simp
    with r(3) i obtain p where p: "documentPathOf (qs ! i) = JStr p" "rqs ! i = adminRequest rso p"
      by (auto simp: dot_extractFix_documentPath)
    from iq q have "qualifies (qs ! i)" by simp
    with p show ?thesis
      by (simp add: checkedFor_def qualifies_def adminRequest_def)
  qed
  with r(1,2) show ?thesis
    by (simp add: list_all2_conv_all_nth)
qed

lemma iteration_reaches_requests:
  assumes "reachesStatusCheck rso fix" and "dot fix ''documentPath'' = JStr q"
  shows "helixRequests (snd (iteration tv W rso fix s)) = helixRequests s @ [adminRequest rso q]"
proof -
  from iteration_reaches [OF assms(1), of W s] assms(2)
  have get: "getHelixStatus W (helixRequests s) (dot fix ''documentPath'') rso
               = (Inr (statusOf (helixResponse W (length (helixRequests s)) (adminRequest rso q))),
                  helixRequests s @ [adminRequest rso q])"
    by simp
  from assms(1) have ex: "convertible (dot fix ''executedAt'')"
    by (simp add: reachesStatusCheck_iff)
  show ?thesis by (simp add: iteration_fetched [OF get ex])
qed

lemma forOf_requests_prefix:
  "prefix (helixRequests s) (helixRequests (snd (forOf tv W rso ds s)))"
  using forOf_requests [of tv W rso ds s "fst (forOf tv W rso ds s)" "snd (forOf tv W rso ds s)"]
  by auto


























section \<open>The date comparator\<close>

text \<open>
  C2. For timestamps \<open>a\<close> and \<open>b\<close> that both parse as valid instants, if the instant
  of \<open>a\<close> is later than the instant of \<open>b\<close> then \<open>isDateAfter a b\<close> is true and
  \<open>isDateAfter b a\<close> is false; and \<open>isDateAfter a a\<close> is never true: it is false for
  every \<open>a\<close> that converts to a primitive, as every string does, whether it parses or
  not. This holds for every clock.
\<close>

theorem isDateAfter_strict_order:
  "(parseDate tv a = Inr (Some ta) \<and> parseDate tv b = Inr (Some tb) \<and> tb < ta
      \<longrightarrow> isDateAfter tv a b = Inr True \<and> isDateAfter tv b a = Inr False)
   \<and> isDateAfter tv a a \<noteq> Inr True
   \<and> (convertible a \<longrightarrow> isDateAfter tv a a = Inr False)"
  by (auto simp: isDateAfter_def parseDate_def dateGreater_def split: if_splits option.splits)

theorem isDateAfter_strict_order_witness:
  "parseDate isoClock (JStr ''2025-07-11T16:30:00.000Z'') = Inr (Some 1752251400000)
   \<and> parseDate isoClock (JStr ''2025-07-11T15:28:23.948Z'') = Inr (Some 1752247703948)
   \<and> (1752247703948 :: int) < 1752251400000
   \<and> convertible (JStr ''2025-07-11T16:30:00.000Z'')
   \<and> isDateAfter isoClock (JStr ''2025-07-11T16:30:00.000Z'') (JStr ''2025-07-11T15:28:23.948Z'')
       = Inr True
   \<and> isDateAfter isoClock (JStr ''2025-07-11T15:28:23.948Z'') (JStr ''2025-07-11T16:30:00.000Z'')
       = Inr False
   \<and> isDateAfter isoClock (JStr ''2025-07-11T16:30:00.000Z'') (JStr ''2025-07-11T16:30:00.000Z'')
       = Inr False"
proof -
  have a: "parseDate isoClock (JStr ''2025-07-11T16:30:00.000Z'') = Inr (Some 1752251400000)"
    by code_simp
  have b: "parseDate isoClock (JStr ''2025-07-11T15:28:23.948Z'') = Inr (Some 1752247703948)"
    by code_simp
  have c: "(1752247703948 :: int) < 1752251400000" by simp
  have d: "convertible (JStr ''2025-07-11T16:30:00.000Z'')" by simp
  from a b c d
    isDateAfter_strict_order [of isoClock "JStr ''2025-07-11T16:30:00.000Z''" 1752251400000
      "JStr ''2025-07-11T15:28:23.948Z''" 1752247703948]
  show ?thesis by blast
qed

text \<open>
  C3. Whenever one of two timestamps (strings, or any values that convert to a primitive)
  does not parse as an instant, \<open>isDateAfter\<close> is false. So an unparseable timestamp
  never produces evidence and never fails the run: for a fix whose status was fetched,
  with timestamps that convert, the iteration ends without an exception; with an
  unparseable \<^verbatim>\<open>executedAt\<close> it appends to neither list, and with an unparseable
  \<^verbatim>\<open>lastModified\<close> of a branch it does not append to that branch's list.
\<close>

theorem unparseable_timestamp_no_evidence:
  "(convertible a \<and> convertible b \<and> (parseDate tv a = Inr None \<or> parseDate tv b = Inr None)
      \<longrightarrow> isDateAfter tv a b = Inr False)
   \<and> (getHelixStatus W (helixRequests s) (dot fix ''documentPath'') rso = (Inr status, sent)
        \<and> convertible (dot fix ''executedAt'')
        \<and> convertible (lastModifiedOf ''live'' status)
        \<and> convertible (lastModifiedOf ''preview'' status)
        \<longrightarrow> (\<exists>s'. iteration tv W rso fix s = (None, s')
              \<and> (parseDate tv (dot fix ''executedAt'') = Inr None
                   \<longrightarrow> livePublishedPages s' = livePublishedPages s
                       \<and> previewPublishedPages s' = previewPublishedPages s)
              \<and> (parseDate tv (lastModifiedOf ''live'' status) = Inr None
                   \<longrightarrow> livePublishedPages s' = livePublishedPages s)
              \<and> (parseDate tv (lastModifiedOf ''preview'' status) = Inr None
                   \<longrightarrow> previewPublishedPages s' = previewPublishedPages s)))"
proof (intro conjI impI)
  assume "convertible a \<and> convertible b
            \<and> (parseDate tv a = Inr None \<or> parseDate tv b = Inr None)"
  then show "isDateAfter tv a b = Inr False"
    by (auto simp: isDateAfter_def parseDate_def dateGreater_def split: option.splits)
next
  assume h: "getHelixStatus W (helixRequests s) (dot fix ''documentPath'') rso = (Inr status, sent)
        \<and> convertible (dot fix ''executedAt'')
        \<and> convertible (lastModifiedOf ''live'' status)
        \<and> convertible (lastModifiedOf ''preview'' status)"
  then have "iteration tv W rso fix s =
      (None, s\<lparr>livePublishedPages := livePublishedPages s @ liveFound tv fix status,
               previewPublishedPages := previewPublishedPages s @ previewFound tv fix status,
               helixRequests := sent\<rparr>)"
    using iteration_fetched [of W s "fix" rso status sent tv] by (simp add: lastModifiedOf_dot)
  then show "\<exists>s'. iteration tv W rso fix s = (None, s')
              \<and> (parseDate tv (dot fix ''executedAt'') = Inr None
                   \<longrightarrow> livePublishedPages s' = livePublishedPages s
                       \<and> previewPublishedPages s' = previewPublishedPages s)
              \<and> (parseDate tv (lastModifiedOf ''live'' status) = Inr None
                   \<longrightarrow> livePublishedPages s' = livePublishedPages s)
              \<and> (parseDate tv (lastModifiedOf ''preview'' status) = Inr None
                   \<longrightarrow> previewPublishedPages s' = previewPublishedPages s)"
    by (auto simp: liveFound_def previewFound_def isDateAfter_True_iff parseDate_def
                   lastModifiedOf_dot split: if_splits)
qed

theorem unparseable_timestamp_no_evidence_witness:
  "convertible (JStr ''soon'') \<and> convertible (JStr ''2025-07-11T15:28:23.948Z'')
   \<and> parseDate isoClock (JStr ''soon'') = Inr None
   \<and> isDateAfter isoClock (JStr ''soon'') (JStr ''2025-07-11T15:28:23.948Z'') = Inr False
   \<and> getHelixStatus garbledWorld (helixRequests initialState)
        (dot (extractFix (sampleFix ''fix-9'' ''DEPLOYED'' ''n/a''
           (JObj [(''documentPath'', JStr ''/a'')]))) ''documentPath'') sampleRso
       = (Inr garbledStatus, [adminRequest sampleRso ''/a''])
   \<and> convertible (dot (extractFix (sampleFix ''fix-9'' ''DEPLOYED'' ''n/a''
           (JObj [(''documentPath'', JStr ''/a'')]))) ''executedAt'')
   \<and> convertible (lastModifiedOf ''live'' garbledStatus)
   \<and> convertible (lastModifiedOf ''preview'' garbledStatus)
   \<and> parseDate isoClock (dot (extractFix (sampleFix ''fix-9'' ''DEPLOYED'' ''n/a''
           (JObj [(''documentPath'', JStr ''/a'')]))) ''executedAt'') = Inr None
   \<and> parseDate isoClock (lastModifiedOf ''live'' garbledStatus) = Inr None
   \<and> parseDate isoClock (lastModifiedOf ''preview'' garbledStatus) = Inr None
   \<and> (\<exists>s'. iteration isoClock garbledWorld sampleRso
              (extractFix (sampleFix ''fix-9'' ''DEPLOYED'' ''n/a''
                 (JObj [(''documentPath'', JStr ''/a'')]))) initialState = (None, s')
          \<and> livePublishedPages s' = [] \<and> previewPublishedPages s' = [])"
proof -
  let ?fix = "extractFix (sampleFix ''fix-9'' ''DEPLOYED'' ''n/a''
           (JObj [(''documentPath'', JStr ''/a'')]))"
  have c: "convertible (JStr ''soon'') \<and> convertible (JStr ''2025-07-11T15:28:23.948Z'')"
    by simp
  have a: "parseDate isoClock (JStr ''soon'') = Inr None" by code_simp
  have g: "getHelixStatus garbledWorld (helixRequests initialState)
        (dot ?fix ''documentPath'') sampleRso
       = (Inr garbledStatus, [adminRequest sampleRso ''/a''])" by code_simp
  have ce: "convertible (dot ?fix ''executedAt'')" by code_simp
  have cl: "convertible (lastModifiedOf ''live'' garbledStatus)" by code_simp
  have cp: "convertible (lastModifiedOf ''preview'' garbledStatus)" by code_simp
  have e: "parseDate isoClock (dot ?fix ''executedAt'') = Inr None" by code_simp
  have l: "parseDate isoClock (lastModifiedOf ''live'' garbledStatus) = Inr None"
    by code_simp
  have p: "parseDate isoClock (lastModifiedOf ''preview'' garbledStatus) = Inr None"
    by code_simp
  have i: "livePublishedPages initialState = [] \<and> previewPublishedPages initialState = []"
    by (simp add: initialState_def)
  from c a g ce cl cp e l p i
    unparseable_timestamp_no_evidence [of "JStr ''soon''"
      "JStr ''2025-07-11T15:28:23.948Z''" isoClock garbledWorld initialState ?fix sampleRso
      garbledStatus "[adminRequest sampleRso ''/a'']"]
  show ?thesis by auto
qed

section \<open>One iteration of the loop\<close>




text \<open>
  C6. When the status client fails for a fix that reached it (rejected fetch, response
  not ok, or a body that is not JSON), \<^verbatim>\<open>getHelixStatus\<close> answers \<^verbatim>\<open>null\<close>
  instead of throwing, the iteration adds nothing to either list and throws nothing, and
  the loop goes on: its result is that of running the iteration of the next fix and then
  the rest, and when the next fix reaches its status check, its request follows the failed
  one in the requests of the loop.
\<close>

theorem status_failure_is_skipped:
  assumes "reachesStatusCheck rso fix"
    and "dot fix ''documentPath'' = JStr p"
    and "statusClientFails (helixResponse W (length (helixRequests s)) (adminRequest rso p))"
  shows "getHelixStatus W (helixRequests s) (JStr p) rso
           = (Inr JNull, helixRequests s @ [adminRequest rso p])
     \<and> iteration tv W rso fix s
           = (None, s\<lparr>helixRequests := helixRequests s @ [adminRequest rso p]\<rparr>)
     \<and> forOf tv W rso (fix # nextFix # rest) s
           = (case iteration tv W rso nextFix
                     (s\<lparr>helixRequests := helixRequests s @ [adminRequest rso p]\<rparr>) of
                (Some e, t) \<Rightarrow> (Some e, t)
              | (None, t) \<Rightarrow> forOf tv W rso rest t)
     \<and> (reachesStatusCheck rso nextFix \<longrightarrow>
          (\<exists>q. dot nextFix ''documentPath'' = JStr q
              \<and> prefix (helixRequests s @ [adminRequest rso p, adminRequest rso q])
                  (helixRequests (snd (forOf tv W rso (fix # nextFix # rest) s)))))"
proof -
  let ?s1 = "s\<lparr>helixRequests := helixRequests s @ [adminRequest rso p]\<rparr>"
  from assms(1) have rso: "\<not> nullish rso" "routes rso" and ex: "convertible (dot fix ''executedAt'')"
    by (simp_all add: reachesStatusCheck_iff)
  have null: "statusOf (helixResponse W (length (helixRequests s)) (adminRequest rso p)) = JNull"
    using assms(3) by (auto simp: statusClientFails_def statusOf_def split: fetched.splits)
  have get: "getHelixStatus W (helixRequests s) (JStr p) rso
           = (Inr JNull, helixRequests s @ [adminRequest rso p])"
    using getHelixStatus_string [OF rso, of W "helixRequests s" p] null by simp
  have step: "iteration tv W rso fix s = (None, ?s1)"
    using iteration_fetched [of W s "fix" rso JNull "helixRequests s @ [adminRequest rso p]" tv]
      get assms(2) ex by (simp add: liveFound_def previewFound_def)
  have loop: "forOf tv W rso (fix # nextFix # rest) s
           = (case iteration tv W rso nextFix ?s1 of
                (Some e, t) \<Rightarrow> (Some e, t)
              | (None, t) \<Rightarrow> forOf tv W rso rest t)"
    using step by simp
  have "\<exists>q. dot nextFix ''documentPath'' = JStr q
              \<and> prefix (helixRequests s @ [adminRequest rso p, adminRequest rso q])
                  (helixRequests (snd (forOf tv W rso (fix # nextFix # rest) s)))"
    if r: "reachesStatusCheck rso nextFix"
  proof -
    from r obtain q where q: "dot nextFix ''documentPath'' = JStr q"
      by (auto simp: reachesStatusCheck_iff)
    obtain e2 s2 where it: "iteration tv W rso nextFix ?s1 = (e2, s2)"
      by (cases "iteration tv W rso nextFix ?s1")
    from iteration_reaches_requests [OF r q, of tv W ?s1] it
    have s2: "helixRequests s2 = helixRequests s @ [adminRequest rso p, adminRequest rso q]"
      by simp
    have "prefix (helixRequests s2) (helixRequests (snd (forOf tv W rso (fix # nextFix # rest) s)))"
    proof (cases e2)
      case None
      with loop it have "forOf tv W rso (fix # nextFix # rest) s = forOf tv W rso rest s2"
        by simp
      then show ?thesis by (simp add: forOf_requests_prefix)
    next
      case (Some e)
      with loop it have "forOf tv W rso (fix # nextFix # rest) s = (Some e, s2)" by simp
      then show ?thesis by simp
    qed
    with q s2 show ?thesis by auto
  qed
  with get step loop show ?thesis by blast
qed

theorem status_failure_is_skipped_witness:
  "reachesStatusCheck sampleRso (extractFix (sampleFixes ! 4))
   \<and> dot (extractFix (sampleFixes ! 4)) ''documentPath'' = JStr ''/about''
   \<and> statusClientFails (helixResponse sampleWorld (length (helixRequests initialState))
        (adminRequest sampleRso ''/about''))
   \<and> reachesStatusCheck sampleRso (extractFix (sampleFixes ! 0))
   \<and> getHelixStatus sampleWorld (helixRequests initialState) (JStr ''/about'') sampleRso
        = (Inr JNull, helixRequests initialState @ [adminRequest sampleRso ''/about''])
   \<and> iteration isoClock sampleWorld sampleRso (extractFix (sampleFixes ! 4)) initialState
        = (None, initialState\<lparr>helixRequests :=
             helixRequests initialState @ [adminRequest sampleRso ''/about'']\<rparr>)
   \<and> forOf isoClock sampleWorld sampleRso
        [extractFix (sampleFixes ! 4), extractFix (sampleFixes ! 0)] initialState
        = (case iteration isoClock sampleWorld sampleRso (extractFix (sampleFixes ! 0))
                  (initialState\<lparr>helixRequests :=
                     helixRequests initialState @ [adminRequest sampleRso ''/about'']\<rparr>) of
             (Some e, t) \<Rightarrow> (Some e, t)
           | (None, t) \<Rightarrow> forOf isoClock sampleWorld sampleRso [] t)
   \<and> map reqPath (helixRequests (snd (forOf isoClock sampleWorld sampleRso
        [extractFix (sampleFixes ! 4), extractFix (sampleFixes ! 0)] initialState)))
        = [''about'', ''resources/hr-glossary/form-940'']
   \<and> livePublishedPages (snd (forOf isoClock sampleWorld sampleRso
        [extractFix (sampleFixes ! 4), extractFix (sampleFixes ! 0)] initialState))
        = [JObj [(''documentPath'', JStr ''/resources/hr-glossary/form-940''),
                 (''executedAt'', JStr ''2025-07-11T15:28:23.948Z''),
                 (''liveLastModified'', JStr ''2025-07-11T16:30:00.000Z''),
                 (''liveUrl'', JStr ''https://live/form-940'')]]"
proof -
  have r: "reachesStatusCheck sampleRso (extractFix (sampleFixes ! 4))" by code_simp
  have d: "dot (extractFix (sampleFixes ! 4)) ''documentPath'' = JStr ''/about''" by code_simp
  have f: "statusClientFails (helixResponse sampleWorld (length (helixRequests initialState))
        (adminRequest sampleRso ''/about''))" by code_simp
  have n: "reachesStatusCheck sampleRso (extractFix (sampleFixes ! 0))" by code_simp
  have q: "map reqPath (helixRequests (snd (forOf isoClock sampleWorld sampleRso
        [extractFix (sampleFixes ! 4), extractFix (sampleFixes ! 0)] initialState)))
        = [''about'', ''resources/hr-glossary/form-940'']" by code_simp
  have l: "livePublishedPages (snd (forOf isoClock sampleWorld sampleRso
        [extractFix (sampleFixes ! 4), extractFix (sampleFixes ! 0)] initialState))
        = [JObj [(''documentPath'', JStr ''/resources/hr-glossary/form-940''),
                 (''executedAt'', JStr ''2025-07-11T15:28:23.948Z''),
                 (''liveLastModified'', JStr ''2025-07-11T16:30:00.000Z''),
                 (''liveUrl'', JStr ''https://live/form-940'')]]" by code_simp
  from r d f n q l
    status_failure_is_skipped [OF r d f, of isoClock "extractFix (sampleFixes ! 0)" "[]"]
  show ?thesis by blast
qed

section \<open>The loop\<close>

text \<open>
  C7. Whatever list the loop runs over and whatever state it starts from (so after every
  number of iterations, by \<open>forOf_append\<close>), the live list has grown by the contributions
  of the fixes processed so far, in order, and so has the preview list: each processed
  fix has contributed at most one entry to each, and an entry only with a
  \<^verbatim>\<open>lastModified\<close> after its \<^verbatim>\<open>executedAt\<close>. A loop that ended without an
  exception has processed every fix.
\<close>

theorem one_entry_per_fix_invariant:
  assumes "forOf tv W rso fixes s = (err, s')"
  shows "\<exists>lives previews.
           length lives = length previews \<and> length lives \<le> length fixes
         \<and> (err = None \<longrightarrow> length lives = length fixes)
         \<and> livePublishedPages s' = livePublishedPages s @ concat lives
         \<and> previewPublishedPages s' = previewPublishedPages s @ concat previews
         \<and> list_all2 (contributes tv ''liveLastModified'') (take (length lives) fixes) lives
         \<and> list_all2 (contributes tv ''previewLastModified'')
              (take (length previews) fixes) previews"
  using assms by (rule forOf_contributions)

theorem one_entry_per_fix_invariant_witness:
  "forOf isoClock sampleWorld sampleRso sampleDeployed initialState
     = (None, snd (forOf isoClock sampleWorld sampleRso sampleDeployed initialState))
   \<and> (\<exists>lives previews.
          length lives = 3 \<and> length previews = 3
        \<and> livePublishedPages (snd (forOf isoClock sampleWorld sampleRso sampleDeployed initialState))
            = concat lives
        \<and> previewPublishedPages (snd (forOf isoClock sampleWorld sampleRso sampleDeployed initialState))
            = concat previews
        \<and> list_all2 (contributes isoClock ''liveLastModified'') sampleDeployed lives
        \<and> list_all2 (contributes isoClock ''previewLastModified'') sampleDeployed previews)"
proof -
  let ?run = "forOf isoClock sampleWorld sampleRso sampleDeployed initialState"
  have e: "fst ?run = None" by code_simp
  then have h: "?run = (None, snd ?run)" by (metis prod.collapse)
  have n: "length sampleDeployed = 3" by (simp add: sampleDeployed_def)
  have i: "livePublishedPages initialState = [] \<and> previewPublishedPages initialState = []"
    by (simp add: initialState_def)
  from one_entry_per_fix_invariant [OF h] obtain lives previews where
    l: "length lives = length previews" "length lives \<le> length sampleDeployed"
       "length lives = length sampleDeployed"
       "livePublishedPages (snd ?run) = livePublishedPages initialState @ concat lives"
       "previewPublishedPages (snd ?run) = previewPublishedPages initialState @ concat previews"
       "list_all2 (contributes isoClock ''liveLastModified'') (take (length lives) sampleDeployed) lives"
       "list_all2 (contributes isoClock ''previewLastModified'')
              (take (length previews) sampleDeployed) previews"
    by blast
  from l n i have "length lives = 3 \<and> length previews = 3
        \<and> livePublishedPages (snd ?run) = concat lives
        \<and> previewPublishedPages (snd ?run) = concat previews
        \<and> list_all2 (contributes isoClock ''liveLastModified'') sampleDeployed lives
        \<and> list_all2 (contributes isoClock ''previewLastModified'') sampleDeployed previews"
    by simp
  with h show ?thesis by blast
qed

text \<open>
  C8. Both lists keep the order of the fetched fixes: the document paths of the live
  entries, and those of the preview entries, are a subsequence of the document paths of
  the qualifying fixes, taken in the order in which the fixes were fetched. This holds
  at the end of the loop, whether it ended normally or by an exception.
\<close>

theorem evidence_order_preserved:
  assumes "deployedFixesOf (JArr fixes) = Inr deployedFixes"
    and "forOf tv W rso deployedFixes initialState = (err, s)"
  shows "subseq (map (\<lambda>e. dot e ''documentPath'') (livePublishedPages s))
           (map documentPathOf (filter qualifies fixes))
       \<and> subseq (map (\<lambda>e. dot e ''documentPath'') (previewPublishedPages s))
           (map documentPathOf (filter qualifies fixes))
       \<and> subseq (map documentPathOf (filter qualifies fixes)) (map documentPathOf fixes)"
proof -
  from deployedFixesOf_Inr [OF assms(1)]
  have ds: "deployedFixes = map extractFix (filter qualifies fixes)" by simp
  then have paths: "map (\<lambda>f. dot f ''documentPath'') deployedFixes
                      = map documentPathOf (filter qualifies fixes)"
    by (simp add: dot_extractFix_documentPath)
  from forOf_contributions [OF assms(2)] obtain lives previews where
    l: "livePublishedPages s = concat lives"
       "list_all2 (contributes tv ''liveLastModified'') (take (length lives) deployedFixes) lives"
    and p: "previewPublishedPages s = concat previews"
       "list_all2 (contributes tv ''previewLastModified'')
          (take (length previews) deployedFixes) previews"
    by (auto simp: initialState_def)
  have "subseq (map (\<lambda>e. dot e ''documentPath'') (livePublishedPages s))
          (map (\<lambda>f. dot f ''documentPath'') deployedFixes)"
    unfolding l(1)
    by (rule subseq_order.trans [OF contributes_paths [OF l(2)] subseq_map_take])
  moreover have "subseq (map (\<lambda>e. dot e ''documentPath'') (previewPublishedPages s))
          (map (\<lambda>f. dot f ''documentPath'') deployedFixes)"
    unfolding p(1)
    by (rule subseq_order.trans [OF contributes_paths [OF p(2)] subseq_map_take])
  moreover have "subseq (map documentPathOf (filter qualifies fixes)) (map documentPathOf fixes)"
    by (simp add: subseq_map)
  ultimately show ?thesis by (simp add: paths)
qed

theorem evidence_order_preserved_witness:
  "deployedFixesOf (JArr sampleFixes) = Inr sampleDeployed
   \<and> forOf isoClock laterLives sampleRso sampleDeployed initialState
       = (None, snd (forOf isoClock laterLives sampleRso sampleDeployed initialState))
   \<and> map (\<lambda>e. dot e ''documentPath'')
        (livePublishedPages (snd (forOf isoClock laterLives sampleRso sampleDeployed initialState)))
       = [JStr ''/resources/hr-glossary/form-940'', JStr ''//blog/payroll'']
   \<and> map (\<lambda>e. dot e ''documentPath'')
        (previewPublishedPages (snd (forOf isoClock laterLives sampleRso sampleDeployed initialState)))
       = [JStr ''//blog/payroll'']
   \<and> map documentPathOf (filter qualifies sampleFixes)
       = [JStr ''/resources/hr-glossary/form-940'', JStr ''//blog/payroll'', JStr ''/about'']
   \<and> subseq [JStr ''/resources/hr-glossary/form-940'', JStr ''//blog/payroll'']
        [JStr ''/resources/hr-glossary/form-940'', JStr ''//blog/payroll'', JStr ''/about'']
   \<and> subseq [JStr ''//blog/payroll'']
        [JStr ''/resources/hr-glossary/form-940'', JStr ''//blog/payroll'', JStr ''/about'']"
proof -
  let ?run = "forOf isoClock laterLives sampleRso sampleDeployed initialState"
  have d: "deployedFixesOf (JArr sampleFixes) = Inr sampleDeployed" by code_simp
  have e: "fst ?run = None" by code_simp
  then have h: "?run = (None, snd ?run)" by (metis prod.collapse)
  have l: "map (\<lambda>e. dot e ''documentPath'') (livePublishedPages (snd ?run))
             = [JStr ''/resources/hr-glossary/form-940'', JStr ''//blog/payroll'']" by code_simp
  have p: "map (\<lambda>e. dot e ''documentPath'') (previewPublishedPages (snd ?run))
             = [JStr ''//blog/payroll'']" by code_simp
  have q: "map documentPathOf (filter qualifies sampleFixes)
       = [JStr ''/resources/hr-glossary/form-940'', JStr ''//blog/payroll'', JStr ''/about'']"
    by code_simp
  from evidence_order_preserved [OF d h] d h l p q show ?thesis by simp
qed

section \<open>The whole run\<close>

text \<open>
  C4. The admin requests of a run, in the order they were made, are the status checks
  of the first qualifying fixes in fetched order: every request belongs to a fetched fix
  with status \<^verbatim>\<open>DEPLOYED\<close> and a present \<^verbatim>\<open>documentPath\<close>. Step 3 hands to the
  loop the extracts of exactly the qualifying fixes, so a fix without a document path or
  with another status never reaches the status check, whatever its other fields are.
\<close>

theorem status_check_only_for_qualifying:
  "list_all2 checkedFor (snd (checkPublishedFixes tv W))
     (take (length (snd (checkPublishedFixes tv W))) (filter qualifies (fetchedFixes W)))
   \<and> (deployedFixesOf (JArr fixes) = Inr deployedFixes
        \<longrightarrow> deployedFixes = map extractFix (filter qualifies fixes))"
proof
  show "list_all2 checkedFor (snd (checkPublishedFixes tv W))
     (take (length (snd (checkPublishedFixes tv W))) (filter qualifies (fetchedFixes W)))"
  proof (cases "loopInput W")
    case None
    then show ?thesis by (simp add: requests_run)
  next
    case (Some a)
    obtain rso ds where a: "a = (rso, ds)" by (cases a)
    from loopInput_Some [OF Some [unfolded a]]
    have ds: "ds = map extractFix (filter qualifies (fetchedFixes W))" by simp
    let ?run = "forOf tv W rso (map extractFix (filter qualifies (fetchedFixes W))) initialState"
    have "?run = (fst ?run, snd ?run)" by simp
    then have "list_all2 checkedFor (helixRequests (snd ?run))
            (take (length (helixRequests (snd ?run))) (filter qualifies (fetchedFixes W)))"
      by (rule forOf_checkedFor [rotated]) (simp_all add: initialState_def)
    then show ?thesis by (simp add: requests_run Some a ds)
  qed
next
  show "deployedFixesOf (JArr fixes) = Inr deployedFixes
        \<longrightarrow> deployedFixes = map extractFix (filter qualifies fixes)"
    using deployedFixesOf_Inr [of "JArr fixes" deployedFixes] by simp
qed

theorem status_check_only_for_qualifying_witness:
  "deployedFixesOf (JArr sampleFixes) = Inr sampleDeployed
   \<and> sampleDeployed = map extractFix (filter qualifies sampleFixes)
   \<and> map reqPath (snd (checkPublishedFixes isoClock sampleWorld))
       = [''resources/hr-glossary/form-940'', ''blog/payroll'', ''about'']
   \<and> list_all2 checkedFor (snd (checkPublishedFixes isoClock sampleWorld))
       [sampleFixes ! 0, sampleFixes ! 2, sampleFixes ! 4]"
proof -
  have d: "deployedFixesOf (JArr sampleFixes) = Inr sampleDeployed" by code_simp
  have r: "map reqPath (snd (checkPublishedFixes isoClock sampleWorld))
       = [''resources/hr-glossary/form-940'', ''blog/payroll'', ''about'']" by code_simp
  then have n: "length (snd (checkPublishedFixes isoClock sampleWorld)) = 3"
    by (metis length_map length_Cons list.size(3) numeral_3_eq_3)
  have q: "take 3 (filter qualifies (fetchedFixes sampleWorld))
             = [sampleFixes ! 0, sampleFixes ! 2, sampleFixes ! 4]" by code_simp
  from status_check_only_for_qualifying [of isoClock sampleWorld sampleFixes sampleDeployed] d r n q
  show ?thesis by simp
qed

text \<open>
  C5, as stated: step 3 applied to its own output yields the same list. It does not: the
  records it builds have the properties \<^verbatim>\<open>id\<close>, \<^verbatim>\<open>executedAt\<close> and
  \<^verbatim>\<open>documentPath\<close> only, so the first filter, which reads \<^verbatim>\<open>status\<close>, drops
  every one of them.
\<close>

theorem filter_stage_not_idempotent_counterexample:
  "deployedFixesOf (JArr sampleFixes) = Inr sampleDeployed
   \<and> deployedFixesOf (JArr sampleDeployed) = Inr []
   \<and> deployedFixesOf (JArr sampleDeployed) \<noteq> deployedFixesOf (JArr sampleFixes)"
  by code_simp

text \<open>
  C5, amended. Whenever step 3 succeeds on the fetched fixes, step 3 applied to the
  fetched fixes that qualify (status \<^verbatim>\<open>DEPLOYED\<close> and a truthy document path) yields
  the same list as step 3 applied to all fetched fixes: the extracts of exactly the
  qualifying fixes. On that output the last
  filter of step 3 (keep a truthy document path) changes nothing, while the whole of
  step 3 yields the empty list.
\<close>

theorem stage_idempotent_on_selection:
  assumes "deployedFixesOf (JArr fixes) = Inr deployedFixes"
  shows "deployedFixesOf (JArr (filter qualifies fixes)) = Inr deployedFixes
       \<and> deployedFixes = map extractFix (filter qualifies fixes)
       \<and> filter hasDocumentPath deployedFixes = deployedFixes
       \<and> deployedFixesOf (JArr deployedFixes) = Inr []"
proof -
  from deployedFixesOf_Inr [OF assms]
  have ds: "deployedFixes = map extractFix (filter qualifies fixes)" by simp
  have keep: "filter hasDocumentPath deployedFixes = deployedFixes"
    unfolding ds by (induction "fixes") (simp_all add: hasDocumentPath_extractFix qualifies_def)
  have "filter qualifies deployedFixes = []"
    unfolding ds by (simp add: filter_empty_conv not_qualifies_extractFix)
  moreover have "\<forall>x \<in> set deployedFixes. \<not> nullish x"
    unfolding ds by (simp add: extractFix_not_nullish)
  ultimately have again: "deployedFixesOf (JArr deployedFixes) = Inr []"
    by (simp add: deployedFixesOf_array)
  from deployedFixesOf_selected [OF assms] ds keep again show ?thesis by simp
qed

theorem stage_idempotent_on_selection_witness:
  "deployedFixesOf (JArr sampleFixes) = Inr sampleDeployed
   \<and> filter qualifies sampleFixes = [sampleFixes ! 0, sampleFixes ! 2, sampleFixes ! 4]
   \<and> deployedFixesOf (JArr [sampleFixes ! 0, sampleFixes ! 2, sampleFixes ! 4])
       = Inr sampleDeployed
   \<and> sampleDeployed = map extractFix [sampleFixes ! 0, sampleFixes ! 2, sampleFixes ! 4]
   \<and> filter hasDocumentPath sampleDeployed = sampleDeployed
   \<and> deployedFixesOf (JArr sampleDeployed) = Inr []"
proof -
  have d: "deployedFixesOf (JArr sampleFixes) = Inr sampleDeployed" by code_simp
  have q: "filter qualifies sampleFixes = [sampleFixes ! 0, sampleFixes ! 2, sampleFixes ! 4]"
    by code_simp
  from d q stage_idempotent_on_selection [OF d] show ?thesis by simp
qed

text \<open>
  C9, as stated: every normal completion, the run without qualifying fixes included,
  returns the structured result. With no qualifying fix the function returns early with
  no value.
\<close>

theorem empty_run_returns_undefined_counterexample:
  "checkPublishedFixes isoClock emptyWorld = (Return JUndefined, [])
   \<and> \<not> structured JUndefined"
  by code_simp

text \<open>
  C9, amended. A run that completes normally with at least one qualifying fix (status
  \<^verbatim>\<open>DEPLOYED\<close> and a truthy document path) returns the structured result, in which
  \<^verbatim>\<open>livePublishedPages\<close> and \<^verbatim>\<open>previewPublishedPages\<close> are the document paths of
  the entries of \<^verbatim>\<open>details.live\<close> and \<^verbatim>\<open>details.preview\<close>. A run that completes
  normally without a qualifying fix returns \<^verbatim>\<open>undefined\<close>; and the run does complete
  normally, with no admin request made, when the site details hold a truthy routing
  configuration whose owner, site and ref convert to strings and the fixes are fetched as
  an array without \<^verbatim>\<open>null\<close> that holds no qualifying fix.
\<close>

theorem structured_result_when_fixes_qualify:
  "(fst (checkPublishedFixes tv W) = Return v
      \<longrightarrow> (if filter qualifies (fetchedFixes W) = [] then v = JUndefined else structured v))
   \<and> (getSiteDetails W = Inr siteDetails \<and> \<not> nullish siteDetails \<and> truthy (rsoOf siteDetails)
        \<and> routes (rsoOf siteDetails)
        \<and> getFixedPages W = Inr (JArr fixes) \<and> (\<forall>f \<in> set fixes. \<not> nullish f)
        \<and> filter qualifies fixes = []
      \<longrightarrow> checkPublishedFixes tv W = (Return JUndefined, []))"
proof (intro conjI impI)
  assume r: "fst (checkPublishedFixes tv W) = Return v"
  then have t: "fst (tryBody tv W) = Inr v"
    by (auto simp: checkPublishedFixes_def split: prod.splits sum.splits)
  show "if filter qualifies (fetchedFixes W) = [] then v = JUndefined else structured v"
  proof (cases "loopInput W")
    case None
    from tryBody_returns_early [OF None t] show ?thesis by simp
  next
    case (Some a)
    obtain rso ds where a: "a = (rso, ds)" by (cases a)
    from loopInput_Some [OF Some [unfolded a]]
    have "filter qualifies (fetchedFixes W) \<noteq> []" by auto
    moreover from tryBody_loop [OF Some [unfolded a], of tv] t
    have "\<exists>s. v = resultOf s" by (auto split: prod.splits option.splits if_splits)
    ultimately show ?thesis by (auto simp: structured_resultOf)
  qed
next
  assume "getSiteDetails W = Inr siteDetails \<and> \<not> nullish siteDetails \<and> truthy (rsoOf siteDetails)
        \<and> routes (rsoOf siteDetails)
        \<and> getFixedPages W = Inr (JArr fixes) \<and> (\<forall>f \<in> set fixes. \<not> nullish f)
        \<and> filter qualifies fixes = []"
  then show "checkPublishedFixes tv W = (Return JUndefined, [])"
    by (simp add: checkPublishedFixes_def tryBody_def rsoOf_def routes_def deployedFixesOf_array)
qed

theorem structured_result_when_fixes_qualify_witness:
  "fst (checkPublishedFixes isoClock sampleWorld) = Return sampleResult
   \<and> filter qualifies (fetchedFixes sampleWorld) \<noteq> []
   \<and> structured sampleResult
   \<and> getSiteDetails emptyWorld = Inr sampleSite \<and> \<not> nullish sampleSite
   \<and> truthy (rsoOf sampleSite) \<and> routes (rsoOf sampleSite)
   \<and> getFixedPages emptyWorld = Inr (JArr [])
   \<and> checkPublishedFixes isoClock emptyWorld = (Return JUndefined, [])"
proof -
  have r: "fst (checkPublishedFixes isoClock sampleWorld) = Return sampleResult" by code_simp
  have q: "filter qualifies (fetchedFixes sampleWorld) \<noteq> []" by code_simp
  have g: "getSiteDetails emptyWorld = Inr sampleSite" by code_simp
  have n: "\<not> nullish sampleSite" by code_simp
  have t: "truthy (rsoOf sampleSite)" by code_simp
  have o: "routes (rsoOf sampleSite)" by code_simp
  have f: "getFixedPages emptyWorld = Inr (JArr [])" by code_simp
  from structured_result_when_fixes_qualify [of isoClock sampleWorld sampleResult sampleSite "[]"]
    r q have 1: "structured sampleResult" by simp
  from structured_result_when_fixes_qualify [of isoClock emptyWorld sampleResult sampleSite "[]"]
    g n t o f have 2: "checkPublishedFixes isoClock emptyWorld = (Return JUndefined, [])" by simp
  from r q 1 g n t o f 2 show ?thesis by simp
qed




end
